theory Spec2Isabelle
  imports Complex_Main "HOL-Library.Word" "HOL-Library.Multiset" "HOL-Library.AList"
    "HOL-Library.Product_Lexorder"
begin

section \<open>Strings and numbers of the document pipeline\<close>

text \<open>
  The extraction pipeline of \<^verbatim>\<open>documents.js\<close> works on JavaScript strings, which are
  sequences of UTF-16 code units: \<^verbatim>\<open>length\<close>, \<^verbatim>\<open>split('')\<close> and the regular expressions
  (none carries the \<^verbatim>\<open>u\<close> flag) all count code units. A string is therefore a list of code
  units, each a natural number below 65536, so that Cyrillic letters are single elements.
  ASCII literals of the source are written through \<open>ascii\<close>.

  A JavaScript number is an IEEE 754 binary64 value. A finite number is modelled by the
  rational it denotes, and every arithmetic operation of the source by the exact operation
  followed by \<open>binary64\<close>, the rounding to the nearest value with a significand of 53 bits,
  ties to the even significand. The one non-finite value the pipeline produces itself,
  \<^verbatim>\<open>-Infinity\<close>, is a constructor of its own.
\<close>

type_synonym jsstring = "nat list"

type_synonym bytes = "8 word list"

definition ascii :: "string \<Rightarrow> jsstring" where
  "ascii s = map of_char s"

text \<open>The class \<^verbatim>\<open>\s\<close> of a JavaScript regular expression, which is also what
  \<^verbatim>\<open>String.prototype.trim\<close> strips: TAB, LF, VT, FF, CR, space, NBSP, U+1680,
  U+2000..U+200A, U+2028, U+2029, U+202F, U+205F, U+3000 and U+FEFF.\<close>

definition isSpace :: "nat \<Rightarrow> bool" where
  "isSpace c = (c = 9 \<or> c = 10 \<or> c = 11 \<or> c = 12 \<or> c = 13 \<or> c = 32 \<or> c = 160 \<or> c = 5760
     \<or> (8192 \<le> c \<and> c \<le> 8202) \<or> c = 8232 \<or> c = 8233 \<or> c = 8239 \<or> c = 8287
     \<or> c = 12288 \<or> c = 65279)"

text \<open>\<^verbatim>\<open>text.replace(/\s+/g, ' ')\<close>: every maximal run of whitespace becomes one space.\<close>

function collapseWs :: "jsstring \<Rightarrow> jsstring" where
  "collapseWs [] = []"
| "collapseWs (c # cs) =
     (if isSpace c then 32 # collapseWs (dropWhile isSpace cs) else c # collapseWs cs)"
  by pat_completeness auto
termination
  by (relation "measure length") (auto simp: le_imp_less_Suc length_dropWhile_le)

definition trim :: "jsstring \<Rightarrow> jsstring" where
  "trim s = rev (dropWhile isSpace (rev (dropWhile isSpace s)))"

text \<open>The Cyrillic letter class of the source's regular expressions: U+0410..U+044F, U+0401
  and U+0451.\<close>

definition isCyrillic :: "nat \<Rightarrow> bool" where
  "isCyrillic c = ((1040 \<le> c \<and> c \<le> 1103) \<or> c = 1025 \<or> c = 1105)"

text \<open>\<^verbatim>\<open>\d\<close> without the unicode flag: the ASCII digits.\<close>

definition isDigit :: "nat \<Rightarrow> bool" where
  "isDigit c = (48 \<le> c \<and> c \<le> 57)"

text \<open>The mojibake letter class of \<^verbatim>\<open>scoreTextCandidate\<close>: U+00C3, U+00C2, U+00D0, U+00D1,
  U+00D2, U+00D3, U+00DD and U+00E6.\<close>

definition isMojibake :: "nat \<Rightarrow> bool" where
  "isMojibake c = (c = 195 \<or> c = 194 \<or> c = 208 \<or> c = 209 \<or> c = 210 \<or> c = 211 \<or> c = 221
     \<or> c = 230)"

text \<open>\<^verbatim>\<open>[\u0000-\u0008\u000B\u000C\u000E-\u001F]\<close>.\<close>

definition isControl :: "nat \<Rightarrow> bool" where
  "isControl c = (c \<le> 8 \<or> c = 11 \<or> c = 12 \<or> (14 \<le> c \<and> c \<le> 31))"

text \<open>\<^verbatim>\<open>(s.match(/[...]/g) || []).length\<close>.\<close>

definition countMatches :: "(nat \<Rightarrow> bool) \<Rightarrow> jsstring \<Rightarrow> nat" where
  "countMatches p s = length (filter p s)"

definition startsWith :: "jsstring \<Rightarrow> jsstring \<Rightarrow> bool" where
  "startsWith s p = (take (length p) s = p)"

definition endsWith :: "jsstring \<Rightarrow> jsstring \<Rightarrow> bool" where
  "endsWith s p = (length p \<le> length s \<and> drop (length s - length p) s = p)"

fun includesStr :: "jsstring \<Rightarrow> jsstring \<Rightarrow> bool" where
  "includesStr [] p = (p = [])"
| "includesStr (c # cs) p = (startsWith (c # cs) p \<or> includesStr cs p)"

text \<open>\<^verbatim>\<open>toLowerCase\<close> on the ASCII letters. Every pattern the kind detector looks for is
  ASCII, and no other code unit lower-cases to one of the pattern's letters alone.\<close>

definition toLowerCase :: "jsstring \<Rightarrow> jsstring" where
  "toLowerCase s = map (\<lambda>c. if 65 \<le> c \<and> c \<le> 90 then c + 32 else c) s"

text \<open>\<^verbatim>\<open>parts.join(sep)\<close>.\<close>

fun joinWith :: "jsstring \<Rightarrow> jsstring list \<Rightarrow> jsstring" where
  "joinWith sep [] = []"
| "joinWith sep [x] = x"
| "joinWith sep (x # y # ys) = x @ sep @ joinWith sep (y # ys)"

text \<open>The decimal digits of a number inside a template literal.\<close>

fun showNat :: "nat \<Rightarrow> jsstring" where
  "showNat n = (if n < 10 then [48 + n] else showNat (n div 10) @ [48 + n mod 10])"

declare showNat.simps [simp del]

text \<open>\<^verbatim>\<open>value || ''\<close> for an optional string.\<close>

definition orEmpty :: "jsstring option \<Rightarrow> jsstring" where
  "orEmpty v = (case v of None \<Rightarrow> [] | Some s \<Rightarrow> s)"

text \<open>Rounding to the nearest integer, ties to the even one.\<close>

definition roundHalfEven :: "rat \<Rightarrow> int" where
  "roundHalfEven y =
    (let f = \<lfloor>y\<rfloor>; r = y - of_int f
     in if r < 1 / 2 then f else if 1 / 2 < r then f + 1 else if even f then f else f + 1)"

text \<open>The number of doublings that bring a positive \<open>y\<close> below \<open>2 ^ 52\<close> into the range
  \<open>2 ^ 52 \<le> y < 2 ^ 53\<close>, and the number of halvings that bring a \<open>y\<close> from \<open>2 ^ 53\<close> on
  into it.\<close>

function scaleUp :: "rat \<Rightarrow> nat" where
  "scaleUp y = (if y \<le> 0 \<or> 2 ^ 52 \<le> y then 0 else Suc (scaleUp (2 * y)))"
  by pat_completeness auto
termination
proof (relation "measure (\<lambda>y. nat \<lceil>2 ^ 52 / y\<rceil>)")
  show "wf (measure (\<lambda>y::rat. nat \<lceil>2 ^ 52 / y\<rceil>))" by simp
next
  fix y :: rat
  assume a: "\<not> (y \<le> 0 \<or> 2 ^ 52 \<le> y)"
  define h where "h = 2 ^ 52 / y"
  have y: "0 < y" "y < 2 ^ 52" using a by auto
  have h: "1 < h" unfolding h_def using y by (simp only: less_divide_eq_1_pos)
  have e: "2 ^ 52 / (2 * y) = h / 2" unfolding h_def by simp
  have "h / 2 \<le> of_int (\<lceil>h\<rceil> - 1)"
  proof (cases "h \<le> 2")
    case True
    have "2 \<le> \<lceil>h\<rceil>" using h by (simp add: le_ceiling_iff)
    then have "(1::rat) \<le> of_int (\<lceil>h\<rceil> - 1)" by simp
    then show ?thesis using True by linarith
  next
    case False
    have "h \<le> of_int \<lceil>h\<rceil>" by (rule le_of_int_ceiling)
    moreover have "3 \<le> \<lceil>h\<rceil>" using False by (simp add: le_ceiling_iff)
    then have "(3::rat) \<le> of_int \<lceil>h\<rceil>" by (metis of_int_le_iff of_int_numeral)
    ultimately show ?thesis by linarith
  qed
  then have "\<lceil>h / 2\<rceil> \<le> \<lceil>h\<rceil> - 1" by (simp only: ceiling_le_iff)
  moreover have "0 < \<lceil>h\<rceil>" using h by (simp add: less_ceiling_iff)
  ultimately have "nat \<lceil>h / 2\<rceil> < nat \<lceil>h\<rceil>" by linarith
  then show "(2 * y, y) \<in> measure (\<lambda>y. nat \<lceil>2 ^ 52 / y\<rceil>)"
    unfolding in_measure e h_def [symmetric] .
qed

function scaleDown :: "rat \<Rightarrow> nat" where
  "scaleDown y = (if y < 2 ^ 53 then 0 else Suc (scaleDown (y / 2)))"
  by pat_completeness auto
termination
proof (relation "measure (\<lambda>y. nat \<lfloor>y\<rfloor>)")
  show "wf (measure (\<lambda>y::rat. nat \<lfloor>y\<rfloor>))" by simp
next
  fix y :: rat
  assume a: "\<not> y < 2 ^ 53"
  have "(2::rat) \<le> 2 ^ 53" by simp
  then have y: "2 \<le> y" using a by linarith
  have "2 \<le> \<lfloor>y\<rfloor>" using y by (simp add: le_floor_iff)
  then have "(2::rat) \<le> of_int \<lfloor>y\<rfloor>" by (metis of_int_le_iff of_int_numeral)
  moreover have "y < of_int \<lfloor>y\<rfloor> + 1" by linarith
  ultimately have "y / 2 < of_int \<lfloor>y\<rfloor>" by linarith
  then have "\<lfloor>y / 2\<rfloor> < \<lfloor>y\<rfloor>" by (simp only: floor_less_iff)
  moreover have "0 < \<lfloor>y\<rfloor>" using y by (simp add: less_floor_iff)
  ultimately have "nat \<lfloor>y / 2\<rfloor> < nat \<lfloor>y\<rfloor>" by linarith
  then show "(y / 2, y) \<in> measure (\<lambda>y. nat \<lfloor>y\<rfloor>)" by simp
qed

declare scaleUp.simps [simp del] scaleDown.simps [simp del]

text \<open>
  \<open>binary64 x\<close> is the binary64 value nearest to \<open>x\<close>: \<open>x\<close> is scaled by a power of two
  until its magnitude lies between \<open>2 ^ 52\<close> and \<open>2 ^ 53\<close>, rounded to an integer, and
  scaled back. The exponent is not bounded; the model stands for the platform's arithmetic
  wherever that neither overflows nor underflows (magnitudes from \<open>2 ^ -1022\<close> up to
  \<open>2 ^ 1024\<close>).
\<close>

definition binary64 :: "rat \<Rightarrow> rat" where
  "binary64 x =
    (if x = 0 then 0
     else if \<bar>x\<bar> < 2 ^ 52
       then (let k = scaleUp \<bar>x\<bar> in of_int (roundHalfEven (x * 2 ^ k)) / 2 ^ k)
       else (let k = scaleDown \<bar>x\<bar> in of_int (roundHalfEven (x / 2 ^ k)) * 2 ^ k))"

text \<open>The operators \<^verbatim>\<open>+\<close>, \<^verbatim>\<open>-\<close>, \<^verbatim>\<open>*\<close> and \<^verbatim>\<open>/\<close> on numbers. A decimal literal \<open>c\<close> of the
  source is the number \<open>binary64 c\<close>; integers below \<open>2 ^ 53\<close>, among them every string
  length and count, are numbers as they stand. Comparisons, \<^verbatim>\<open>Math.min\<close> and \<^verbatim>\<open>Math.max\<close>
  are exact on numbers.\<close>

definition jsAdd :: "rat \<Rightarrow> rat \<Rightarrow> rat" where
  "jsAdd a b = binary64 (a + b)"

definition jsSub :: "rat \<Rightarrow> rat \<Rightarrow> rat" where
  "jsSub a b = binary64 (a - b)"

definition jsMul :: "rat \<Rightarrow> rat \<Rightarrow> rat" where
  "jsMul a b = binary64 (a * b)"

definition jsDiv :: "rat \<Rightarrow> rat \<Rightarrow> rat" where
  "jsDiv a b = binary64 (a / b)"

text \<open>A number of the range in which the sums, products and quotients of the layout
  functions neither overflow nor underflow.\<close>

definition inRange :: "rat \<Rightarrow> bool" where
  "inRange x = (binary64 x = x \<and> \<bar>x\<bar> \<le> 2 ^ 900 \<and> (x = 0 \<or> 1 / 2 ^ 900 \<le> \<bar>x\<bar>))"


datatype jsnum = NegInfinity | Num rat

fun jsGt :: "jsnum \<Rightarrow> jsnum \<Rightarrow> bool" where
  "jsGt (Num a) (Num b) = (b < a)"
| "jsGt (Num a) NegInfinity = True"
| "jsGt NegInfinity b = False"

text \<open>\<^verbatim>\<open>Math.round(value * 100) / 100\<close>; \<^verbatim>\<open>Math.round\<close> answers the nearest integer of its
  argument, halves upwards, without a rounding error of its own.\<close>

definition roundCoord :: "rat \<Rightarrow> rat" where
  "roundCoord v = jsDiv (of_int \<lfloor>jsMul v 100 + 1 / 2\<rfloor>) 100"

text \<open>\<^verbatim>\<open>Number(x.toFixed(3))\<close>: \<^verbatim>\<open>toFixed\<close> chooses the integer \<open>n\<close> for which \<open>n / 1000\<close> is
  nearest to the magnitude of \<open>x\<close>, the larger one of two, and prints it with the sign of
  \<open>x\<close>; \<^verbatim>\<open>Number\<close> reads the decimal back as the nearest number.\<close>

definition toFixed3 :: "rat \<Rightarrow> rat" where
  "toFixed3 v = binary64 (sgn v * of_int \<lfloor>\<bar>v\<bar> * 1000 + 1 / 2\<rfloor> / 1000)"

section \<open>Kind detector\<close>

datatype kind = Pdf | Docx | TextKind | Image | Binary | Unknown

record fileInfo =
  fileName :: "jsstring option"
  fileType :: "jsstring option"

text \<open>\<^verbatim>\<open>view[i]\<close> on the \<^verbatim>\<open>Uint8Array\<close> of the first eight bytes: \<^verbatim>\<open>undefined\<close> out of range.\<close>

definition byteAt :: "bytes \<Rightarrow> nat \<Rightarrow> 8 word option" where
  "byteAt view i = (if i < length view then Some (view ! i) else None)"

definition detectFileKind :: "fileInfo \<Rightarrow> bytes \<Rightarrow> kind" where
  "detectFileKind file buffer =
    (let name = toLowerCase (orEmpty (fileName file));
         type = toLowerCase (orEmpty (fileType file));
         view = take 8 buffer
     in if includesStr type (ascii ''pdf'') \<or> endsWith name (ascii ''.pdf'')
           \<or> (byteAt view 0 = Some 0x25 \<and> byteAt view 1 = Some 0x50) then Pdf
        else if endsWith name (ascii ''.docx'') \<or> includesStr type (ascii ''wordprocessingml'')
           \<or> (byteAt view 0 = Some 0x50 \<and> byteAt view 1 = Some 0x4b) then Docx
        else if startsWith type (ascii ''text/'')
           \<or> endsWith name (ascii ''.txt'') \<or> endsWith name (ascii ''.md'')
           \<or> endsWith name (ascii ''.csv'') \<or> endsWith name (ascii ''.json'')
           \<or> endsWith name (ascii ''.log'') then TextKind
        else if startsWith type (ascii ''image/'') then Image
        else Binary)"

section \<open>Text decoder\<close>

text \<open>
  \<^verbatim>\<open>TextDecoder\<close> belongs to the platform. It is a parameter of the model: given the
  encoding label, the \<^verbatim>\<open>fatal\<close> flag and the bytes it answers \<open>Some\<close> text, or \<open>None\<close>
  when the constructor or \<^verbatim>\<open>decode\<close> throws.
\<close>

datatype encoding = Utf8 | Utf16le | Utf16be | Windows1251 | Koi8r | Ibm866

type_synonym decoders = "encoding \<Rightarrow> bool \<Rightarrow> bytes \<Rightarrow> jsstring option"

definition decodeUsing :: "decoders \<Rightarrow> bytes \<Rightarrow> encoding \<Rightarrow> bool \<Rightarrow> jsstring" where
  "decodeUsing td buffer enc fatal = (case td enc fatal buffer of None \<Rightarrow> [] | Some t \<Rightarrow> t)"

definition scoreTextCandidate :: "jsstring \<Rightarrow> jsnum" where
  "scoreTextCandidate t =
    (if t = [] then NegInfinity
     else let cleaned = collapseWs t; len = length cleaned
          in if len = 0 then NegInfinity
             else let cyrillic = countMatches isCyrillic cleaned;
                      mojibake = countMatches isMojibake cleaned;
                      controls = countMatches isControl cleaned
                  in Num (jsSub (jsSub (jsAdd (jsDiv (of_nat len) 50)
                                               (jsMul (of_nat cyrillic) (binary64 (6 / 10))))
                                        (jsMul (of_nat mojibake) 4))
                                 (jsMul (of_nat controls) 6)))"

definition candidates :: "encoding list" where
  "candidates = [Utf8, Utf16le, Utf16be, Windows1251, Koi8r, Ibm866]"

text \<open>The \<^verbatim>\<open>for (const encoding of candidates)\<close> loop; \<open>best\<close> is the pair of score and text.\<close>

fun pickBest :: "decoders \<Rightarrow> bytes \<Rightarrow> encoding list \<Rightarrow> jsnum \<times> jsstring \<Rightarrow> jsnum \<times> jsstring" where
  "pickBest td buffer [] best = best"
| "pickBest td buffer (enc # rest) best =
    (let t = decodeUsing td buffer enc False
     in if t = [] then pickBest td buffer rest best
        else let sc = scoreTextCandidate t
             in if jsGt sc (fst best) then pickBest td buffer rest (sc, t)
                else pickBest td buffer rest best)"

definition decodeTextBuffer :: "decoders \<Rightarrow> bytes option \<Rightarrow> jsstring" where
  "decodeTextBuffer td buffer =
    (case buffer of None \<Rightarrow> []
     | Some buf \<Rightarrow>
        (let strictUtf8 = decodeUsing td buf Utf8 True
         in if strictUtf8 \<noteq> [] then strictUtf8
            else snd (pickBest td buf candidates (NegInfinity, []))))"

text \<open>What \<^verbatim>\<open>TextDecoder\<close> answers on the three bytes EF BB BF, a UTF-8 byte order mark and
  nothing else: UTF-8 strips the mark and yields the empty string, with and without
  \<^verbatim>\<open>fatal\<close>; the UTF-16 decoders yield one code unit and U+FFFD for the odd byte; the
  single-byte code pages map each byte through their table.\<close>

definition bomOnly :: bytes where
  "bomOnly = [0xEF, 0xBB, 0xBF]"

definition textDecoderAtBom :: decoders where
  "textDecoderAtBom enc fatal buffer =
    (if buffer = bomOnly then
       (case enc of
          Utf8 \<Rightarrow> Some []
        | Utf16le \<Rightarrow> (if fatal then None else Some [0xBBEF, 0xFFFD])
        | Utf16be \<Rightarrow> (if fatal then None else Some [0xEFBB, 0xFFFD])
        | Windows1251 \<Rightarrow> Some [0x43F, 0xBB, 0x457]
        | Koi8r \<Rightarrow> Some [0x41E, 0x2569, 0xA9]
        | Ibm866 \<Rightarrow> Some [0x44F, 0x2557, 0x2510])
     else None)"

section \<open>Quality assessor\<close>

definition MIN_USEFUL_TEXT_LENGTH :: nat where
  "MIN_USEFUL_TEXT_LENGTH = 200"

definition OCR_QUALITY_THRESHOLD :: rat where
  "OCR_QUALITY_THRESHOLD = binary64 (12 / 100)"

definition computeQuality :: "jsstring \<Rightarrow> rat" where
  "computeQuality t =
    (if t = [] then 0
     else let cleaned = trim (collapseWs t)
          in if cleaned = [] then 0
             else let cyrillic = countMatches isCyrillic cleaned;
                      lengthScore = min 1 (jsDiv (of_nat (length cleaned)) 4000);
                      cyrillicScore = min (binary64 (6 / 10))
                                        (jsDiv (of_nat cyrillic) (of_nat (max (length cleaned) 1)))
                  in toFixed3 (jsAdd lengthScore cyrillicScore))"

record acceptance =
  readable :: bool
  reason :: string
  score :: jsnum
  cleanedText :: jsstring

text \<open>The first argument of \<^verbatim>\<open>evaluateSoftPdfAcceptance\<close> is never read by its body.\<close>

definition evaluateSoftPdfAcceptance :: "'a \<Rightarrow> jsstring option \<Rightarrow> acceptance" where
  "evaluateSoftPdfAcceptance assessment textArg =
    (let cleaned = trim (collapseWs (orEmpty textArg))
     in if cleaned = [] then
          \<lparr>readable = False, reason = ''empty'', score = NegInfinity, cleanedText = []\<rparr>
        else
          let len = length cleaned;
              cyrillic = countMatches isCyrillic cleaned;
              digits = countMatches isDigit cleaned;
              uniqueChars = card (set cleaned);
              sc = jsAdd (jsAdd (jsAdd (jsDiv (of_nat len) 80)
                                       (jsMul (of_nat cyrillic) (binary64 (4 / 10))))
                                (jsMul (of_nat digits) (binary64 (5 / 100))))
                         (jsMul (of_nat uniqueChars) (binary64 (1 / 10)));
              rd = (len \<ge> MIN_USEFUL_TEXT_LENGTH
                    \<or> (len \<ge> 120 \<and> cyrillic > 40)
                    \<or> (len \<ge> 120 \<and> digits > 30)
                    \<or> (len \<ge> 70 \<and> cyrillic \<ge> 20 \<and> digits \<ge> 2)
                    \<or> sc \<ge> 12)
          in \<lparr>readable = rd, reason = (if rd then ''accepted'' else ''too-short''),
              score = Num sc, cleanedText = cleaned\<rparr>)"

text \<open>The quality assessor in the words of its description: the score and the acceptance
  predicate taken over the whitespace-collapsed text, for every text.\<close>

definition specScore :: "jsstring \<Rightarrow> jsnum" where
  "specScore t =
    (let cleaned = collapseWs t
     in Num (jsAdd (jsAdd (jsAdd (jsDiv (of_nat (length cleaned)) 80)
                                 (jsMul (of_nat (countMatches isCyrillic cleaned)) (binary64 (4 / 10))))
                          (jsMul (of_nat (countMatches isDigit cleaned)) (binary64 (5 / 100))))
                   (jsMul (of_nat (card (set cleaned))) (binary64 (1 / 10)))))"

definition specReadable :: "jsstring \<Rightarrow> bool" where
  "specReadable t =
    (let cleaned = collapseWs t; len = length cleaned;
         cyrillic = countMatches isCyrillic cleaned; digits = countMatches isDigit cleaned
     in len \<ge> 200 \<or> (len \<ge> 120 \<and> cyrillic > 40) \<or> (len \<ge> 120 \<and> digits > 30)
        \<or> (len \<ge> 70 \<and> cyrillic \<ge> 20 \<and> digits \<ge> 2) \<or> jsGt (specScore t) (Num 12)
        \<or> specScore t = Num 12)"

section \<open>Layout reconstruction\<close>

text \<open>A block is one positioned text fragment; \<open>bx1\<close>, \<open>by1\<close>, \<open>bx2\<close>, \<open>by2\<close> are the four
  entries of its \<^verbatim>\<open>bbox\<close>, each a number. A line is a horizontal cluster of blocks as
  \<^verbatim>\<open>groupBlocksIntoLines\<close> builds it.\<close>

record block =
  bid :: jsstring
  btext :: jsstring
  bx1 :: rat
  by1 :: rat
  bx2 :: rat
  by2 :: rat

record line =
  lid :: jsstring
  ly :: rat
  lmaxY :: rat
  lx1 :: rat
  lx2 :: rat
  lblocks :: "block list"

record column =
  cid :: jsstring
  cstart :: rat
  cend :: rat
  ccenter :: rat
  blockCount :: "nat option"

record cell =
  ctext :: jsstring
  cbbox :: "rat \<times> rat \<times> rat \<times> rat"

record tableRow =
  ry :: rat
  cells :: "cell list"

record tableRegion =
  tid :: jsstring
  rows :: "tableRow list"

text \<open>The \<^verbatim>\<open>centers.forEach\<close> loop of \<^verbatim>\<open>detectColumns\<close> from index 1 on: \<open>prev\<close> is
  \<^verbatim>\<open>centers[index - 1]\<close>, \<open>clusters\<close> and \<open>current\<close> are the two accumulators. An entry is
  the pair of a block's center and the block.\<close>

fun clusterLoop :: "rat \<Rightarrow> rat \<times> block \<Rightarrow> (rat \<times> block) list \<Rightarrow> (rat \<times> block) list list
    \<Rightarrow> (rat \<times> block) list \<Rightarrow> (rat \<times> block) list list \<times> (rat \<times> block) list" where
  "clusterLoop gapThreshold prev [] clusters current = (clusters, current)"
| "clusterLoop gapThreshold prev (entry # rest) clusters current =
    (if jsSub (fst entry) (fst prev) > gapThreshold
     then clusterLoop gapThreshold entry rest (clusters @ [current]) [entry]
     else clusterLoop gapThreshold entry rest clusters (current @ [entry]))"

definition splitClusters :: "rat \<Rightarrow> (rat \<times> block) list \<Rightarrow> (rat \<times> block) list list" where
  "splitClusters gapThreshold centers =
    (case centers of
       [] \<Rightarrow> []
     | first # rest \<Rightarrow>
        (let (clusters, current) = clusterLoop gapThreshold first rest [] [first]
         in if current \<noteq> [] then clusters @ [current] else clusters))"

definition mkColumn :: "rat \<Rightarrow> nat \<Rightarrow> (rat \<times> block) list \<Rightarrow> column" where
  "mkColumn pageWidth index cluster =
    (let minX = Min (set (map (\<lambda>item. bx1 (snd item)) cluster));
         maxX = Max (set (map (\<lambda>item. bx2 (snd item)) cluster));
         center = jsDiv (foldl jsAdd 0 (map fst cluster)) (of_nat (length cluster))
     in \<lparr>cid = ascii ''col-'' @ showNat index,
         cstart = roundCoord (max 0 (jsSub minX 12)),
         cend = roundCoord (min pageWidth (jsAdd maxX 12)),
         ccenter = roundCoord center,
         blockCount = Some (length cluster)\<rparr>)"

definition gapThresholdOf :: "rat \<Rightarrow> rat" where
  "gapThresholdOf pageWidth = max (jsMul pageWidth (binary64 (8 / 100))) 42"

definition blockCenter :: "block \<Rightarrow> rat" where
  "blockCenter b = jsDiv (jsAdd (bx1 b) (bx2 b)) 2"

definition detectColumns :: "block list \<Rightarrow> rat \<Rightarrow> column list" where
  "detectColumns blocks pageWidth =
    (if blocks = [] then
       [\<lparr>cid = ascii ''col-0'', cstart = 0, cend = pageWidth, ccenter = jsDiv pageWidth 2,
         blockCount = None\<rparr>]
     else
       let centers = sort_key fst (map (\<lambda>b. (blockCenter b, b)) blocks);
           clusters = splitClusters (gapThresholdOf pageWidth) centers
       in map (\<lambda>(index, cluster). mkColumn pageWidth index cluster) (enumerate 0 clusters))"

text \<open>The column rule in the words of its description: the entries, sorted by center,
  are cut at every gap between consecutive centers that exceeds the threshold, and nowhere
  else.\<close>

fun specClusters :: "rat \<Rightarrow> (rat \<times> 'a) list \<Rightarrow> (rat \<times> 'a) list list" where
  "specClusters thr [] = []"
| "specClusters thr [x] = [[x]]"
| "specClusters thr (x # y # zs) =
    (if jsSub (fst y) (fst x) > thr then [x] # specClusters thr (y # zs)
     else (x # hd (specClusters thr (y # zs))) # tl (specClusters thr (y # zs)))"

text \<open>\<^verbatim>\<open>block.text && block.text.trim().length > 0\<close>.\<close>

definition meaningful :: "block \<Rightarrow> bool" where
  "meaningful b = (btext b \<noteq> [] \<and> length (trim (btext b)) > 0)"

definition tableCandidate :: "nat \<Rightarrow> line \<Rightarrow> bool" where
  "tableCandidate minColumns l = (length (filter meaningful (lblocks l)) \<ge> minColumns)"

text \<open>The \<^verbatim>\<open>lines.forEach\<close> loop of \<^verbatim>\<open>detectTableRows\<close> with its accumulators \<open>tables\<close>
  and \<open>current\<close>.\<close>

fun tableLoop :: "nat \<Rightarrow> line list \<Rightarrow> line list list \<Rightarrow> line list
    \<Rightarrow> line list list \<times> line list" where
  "tableLoop minColumns [] tables current = (tables, current)"
| "tableLoop minColumns (l # rest) tables current =
    (if tableCandidate minColumns l then tableLoop minColumns rest tables (current @ [l])
     else if current \<noteq> [] then tableLoop minColumns rest (tables @ [current]) []
     else tableLoop minColumns rest tables current)"

definition mkCell :: "block \<Rightarrow> cell" where
  "mkCell b = \<lparr>ctext = btext b, cbbox = (bx1 b, by1 b, bx2 b, by2 b)\<rparr>"

definition mkRow :: "line \<Rightarrow> tableRow" where
  "mkRow row = \<lparr>ry = roundCoord (ly row), cells = map mkCell (sort_key bx1 (lblocks row))\<rparr>"

definition mkTable :: "nat \<Rightarrow> line list \<Rightarrow> tableRegion" where
  "mkTable index tableLines =
    \<lparr>tid = ascii ''table-'' @ showNat (index + 1), rows = map mkRow tableLines\<rparr>"

definition detectTableRows :: "line list \<Rightarrow> nat \<Rightarrow> tableRegion list" where
  "detectTableRows lines minColumns =
    (let (tables, current) = tableLoop minColumns lines [] [];
         tables' = (if current \<noteq> [] then tables @ [current] else tables)
     in map (\<lambda>(index, tableLines). mkTable index tableLines) (enumerate 0 tables'))"

text \<open>The table rule in the words of its description: the maximal runs of consecutive
  lines that satisfy a predicate, and the runs among them of at least a given length.\<close>

function maximalRuns :: "('a \<Rightarrow> bool) \<Rightarrow> 'a list \<Rightarrow> 'a list list" where
  "maximalRuns p [] = []"
| "maximalRuns p (x # xs) =
    (if p x then (x # takeWhile p xs) # maximalRuns p (dropWhile p xs) else maximalRuns p xs)"
  by pat_completeness auto
termination
  by (relation "measure (\<lambda>(p, xs). length xs)")
    (auto simp: le_imp_less_Suc length_dropWhile_le)

definition specTableRuns :: "line list \<Rightarrow> line list list" where
  "specTableRuns lines = filter (\<lambda>run. length run \<ge> 3) (maximalRuns (tableCandidate 3) lines)"

text \<open>Three blocks with text on one line, the smallest input that separates the two.\<close>

definition sampleBlock :: "rat \<Rightarrow> block" where
  "sampleBlock x = \<lparr>bid = ascii ''b'', btext = ascii ''cell'', bx1 = x, by1 = 10, bx2 = x + 40,
     by2 = 20\<rparr>"

definition sampleLine :: line where
  "sampleLine = \<lparr>lid = ascii ''line-1'', ly = 10, lmaxY = 20, lx1 = 0, lx2 = 240,
     lblocks = [sampleBlock 200, sampleBlock 0, sampleBlock 100]\<rparr>"

section \<open>Page metadata\<close>

definition normalizePageSegments :: "jsstring list \<Rightarrow> jsstring \<Rightarrow> jsstring list" where
  "normalizePageSegments segments fallbackText =
    (let cleaned = filter (\<lambda>segment. segment \<noteq> [])
                     (map (\<lambda>segment. trim (collapseWs segment)) segments)
     in if segments \<noteq> [] \<and> cleaned \<noteq> [] then cleaned
        else let fallback = trim (collapseWs fallbackText)
             in if fallback \<noteq> [] then [fallback] else [])"

definition pageTag :: "nat \<Rightarrow> jsstring \<Rightarrow> jsstring" where
  "pageTag index pageText = ascii ''<<<PAGE '' @ showNat (index + 1) @ ascii ''>>>'' @ [10] @ pageText"

definition buildPageTaggedText :: "jsstring list \<Rightarrow> jsstring" where
  "buildPageTaggedText pgs =
    (if pgs = [] then []
     else joinWith [10, 10] (map (\<lambda>(index, pageText). pageTag index pageText) (enumerate 0 pgs)))"

text \<open>The page fields of the metadata. The layout is represented by the number of its
  pages (\<open>None\<close> for \<^verbatim>\<open>layout: null\<close>), which is all \<^verbatim>\<open>buildPageMeta\<close> reads from it for
  these fields; language hints are left out.\<close>

record pageMeta =
  pages :: "jsstring list"
  pageCount :: nat
  pageTaggedText :: jsstring
  layoutPageCount :: nat
  ocrPatchedPages :: "nat list option"

definition buildPageMeta :: "jsstring \<Rightarrow> jsstring list \<Rightarrow> nat option \<Rightarrow> pageMeta" where
  "buildPageMeta t pagesInput layout =
    (let layoutCount = (case layout of None \<Rightarrow> 0 | Some n \<Rightarrow> n);
         pgs = normalizePageSegments pagesInput t
     in \<lparr>pages = pgs,
         pageCount = (if length pgs \<noteq> 0 then length pgs else layoutCount),
         pageTaggedText = buildPageTaggedText pgs,
         layoutPageCount = layoutCount,
         ocrPatchedPages = None\<rparr>)"

text \<open>\<^verbatim>\<open>buildPlainLayout(pages)\<close> makes one layout page per entry.\<close>

definition buildPlainLayout :: "jsstring list \<Rightarrow> nat" where
  "buildPlainLayout pgs = length pgs"


section \<open>Extraction stages\<close>

text \<open>A trace entry keeps the stage name and the status; the free-text detail and the
  timestamp are not modelled.\<close>

datatype status = Info | Warn | Error

record traceEntry =
  step :: string
  status :: status

definition pushTrace :: "traceEntry list \<Rightarrow> string \<Rightarrow> status \<Rightarrow> traceEntry list" where
  "pushTrace tr s st = tr @ [\<lparr>step = s, status = st\<rparr>]"

text \<open>
  Everything the pipeline receives from outside is a field of \<open>world\<close>: the file, the
  outcome of reading it, the platform decoders, what pdf.js finds in the document, whether
  a canvas and the OCR engine exist, what OCR recognises on each page, what the remote
  service answers, what the DOCX archive holds. Runs without Cloudinary configuration are
  modelled; the upload of page images touches none of the fields below.
\<close>

datatype acquired = AcquireThrows | AcquireNull | Acquired bytes

datatype pageOcr = RenderThrows | NoContext | RecognizeThrows | Recognized jsstring

text \<open>A field of the JSON answer of the remote service: falsy, a string, or a truthy value
  that is not a string.\<close>

datatype jsfield = Falsy | StringValue jsstring | OtherValue

record serverPayload =
  ptext :: jsfield
  pmetaPages :: "jsstring option list option"
  pextractor :: jsstring

datatype serverOutcome =
  FetchUnavailable | NotConfigured | HttpError nat | RequestThrows | Payload serverPayload

datatype docxOutcome = DocxThrows | DocxNoDocument | DocxParagraphs "jsstring list"

record world =
  inputFile :: "fileInfo option"
  acquired :: acquired
  base64Throws :: bool
  decoders :: decoders
  pdfjsLib :: bool
  pdfjsDoc :: "block list list option"
  canvas :: bool
  tesseract :: bool
  ocrNumPages :: "nat option"
  pageOcr :: "nat \<Rightarrow> pageOcr"
  server :: serverOutcome
  docx :: docxOutcome
  dataUrlReadable :: bool
  imageOcr :: "jsstring option"

record stageResult =
  stext :: jsstring
  spages :: "jsstring list"
  slayout :: "nat option"

definition emptyStage :: stageResult where
  "emptyStage = \<lparr>stext = [], spages = [], slayout = None\<rparr>"

text \<open>The text of one page: its blocks by top edge, then left edge, joined by spaces.\<close>

definition pageTextOf :: "block list \<Rightarrow> jsstring" where
  "pageTextOf blocks =
    trim (collapseWs (joinWith [32] (map btext (sort_key (\<lambda>b. (by1 b, bx1 b)) blocks))))"

text \<open>\<^verbatim>\<open>renderPdfWithPdfjs\<close>: the whole body sits in one \<^verbatim>\<open>try\<close>; \<open>pdfjsDoc = None\<close> stands
  for any exception inside it.\<close>

definition renderPdfWithPdfjs :: "world \<Rightarrow> traceEntry list \<Rightarrow> stageResult \<times> traceEntry list" where
  "renderPdfWithPdfjs w tr =
    (if \<not> pdfjsLib w then (emptyStage, pushTrace tr ''pdfjs'' Error)
     else case pdfjsDoc w of
        None \<Rightarrow> (emptyStage, pushTrace tr ''pdfjs'' Error)
      | Some docPages \<Rightarrow>
         (let pgs = filter (\<lambda>pageText. pageText \<noteq> []) (map pageTextOf docPages);
              combined = trim (joinWith [10] pgs)
          in (\<lparr>stext = combined, spages = pgs, slayout = Some (length docPages)\<rparr>,
              pushTrace tr ''pdfjs'' Info)))"

definition extractDocx :: "world \<Rightarrow> traceEntry list \<Rightarrow> stageResult \<times> traceEntry list" where
  "extractDocx w tr =
    (case docx w of
       DocxThrows \<Rightarrow> (emptyStage, pushTrace tr ''docx'' Error)
     | DocxNoDocument \<Rightarrow> (emptyStage, pushTrace tr ''docx'' Warn)
     | DocxParagraphs paragraphs \<Rightarrow>
        (let lines = filter (\<lambda>l. l \<noteq> []) (map trim paragraphs);
             combined = joinWith [10] lines;
             pgs = [combined]
         in (\<lparr>stext = combined, spages = pgs, slayout = Some (buildPlainLayout pgs)\<rparr>,
             pushTrace tr ''docx'' Info)))"

text \<open>\<^verbatim>\<open>data?.text ? data.text.replace(/\s+/g, ' ').trim() : ''\<close>.\<close>

definition recognizedText :: "jsstring \<Rightarrow> jsstring" where
  "recognizedText t = (if t \<noteq> [] then trim (collapseWs t) else [])"

text \<open>The page loop of \<^verbatim>\<open>ocrPdf\<close>. A rendering failure leaves the loop for the outer
  \<^verbatim>\<open>catch\<close> (\<open>None\<close>); a recognition failure is caught inside and counts as an empty page.\<close>

fun ocrPdfLoop :: "world \<Rightarrow> nat list \<Rightarrow> jsstring list \<Rightarrow> traceEntry list
    \<Rightarrow> jsstring list option \<times> traceEntry list" where
  "ocrPdfLoop w [] texts tr = (Some texts, tr)"
| "ocrPdfLoop w (pageIndex # rest) texts tr =
    (case pageOcr w pageIndex of
       NoContext \<Rightarrow> ocrPdfLoop w rest texts tr
     | RenderThrows \<Rightarrow> (None, tr)
     | RecognizeThrows \<Rightarrow> ocrPdfLoop w rest (texts @ [[]]) (pushTrace tr ''ocr'' Warn)
     | Recognized t \<Rightarrow> ocrPdfLoop w rest (texts @ [recognizedText t]) tr)"

definition ocrPdf :: "world \<Rightarrow> traceEntry list \<Rightarrow> nat \<Rightarrow> stageResult \<times> traceEntry list" where
  "ocrPdf w tr pageLimit =
    (if \<not> pdfjsLib w then (emptyStage, pushTrace tr ''ocr'' Error)
     else if \<not> tesseract w then (emptyStage, pushTrace tr ''ocr'' Warn)
     else case ocrNumPages w of
        None \<Rightarrow> (emptyStage, pushTrace tr ''ocr'' Error)
      | Some numPages \<Rightarrow>
         (case ocrPdfLoop w [1 ..< Suc (min pageLimit numPages)] [] tr of
            (None, t) \<Rightarrow> (emptyStage, pushTrace t ''ocr'' Error)
          | (Some texts, t) \<Rightarrow>
             (let combined = trim (joinWith [10] texts)
              in (\<lparr>stext = combined, spages = normalizePageSegments texts combined,
                   slayout = None\<rparr>,
                  pushTrace t ''ocr'' Info))))"

text \<open>The page loop of \<^verbatim>\<open>ocrPdfPages\<close>; the result \<^verbatim>\<open>Map\<close> is an association list in
  insertion order.\<close>

fun ocrPagesLoop :: "world \<Rightarrow> nat \<Rightarrow> nat list \<Rightarrow> (nat \<times> jsstring) list \<Rightarrow> traceEntry list
    \<Rightarrow> (nat \<times> jsstring) list \<times> traceEntry list" where
  "ocrPagesLoop w numPages [] results tr = (results, tr)"
| "ocrPagesLoop w numPages (pageNumber # rest) results tr =
    (if pageNumber > numPages then ocrPagesLoop w numPages rest results tr
     else case pageOcr w pageNumber of
        NoContext \<Rightarrow> ocrPagesLoop w numPages rest results tr
      | RenderThrows \<Rightarrow>
          ocrPagesLoop w numPages rest results (pushTrace tr ''ocr-adaptive'' Warn)
      | RecognizeThrows \<Rightarrow>
          ocrPagesLoop w numPages rest results (pushTrace tr ''ocr-adaptive'' Warn)
      | Recognized t \<Rightarrow>
          (if recognizedText t \<noteq> []
           then ocrPagesLoop w numPages rest
                  (AList.update pageNumber (recognizedText t) results) tr
           else ocrPagesLoop w numPages rest results tr))"

definition ocrPdfPages :: "world \<Rightarrow> nat list \<Rightarrow> traceEntry list
    \<Rightarrow> (nat \<times> jsstring) list \<times> traceEntry list" where
  "ocrPdfPages w pagesToProcess tr =
    (if pagesToProcess = [] then ([], tr)
     else if \<not> canvas w then ([], pushTrace tr ''ocr-adaptive'' Warn)
     else let targets = sort (remdups (filter (\<lambda>page. page \<ge> 1) pagesToProcess))
          in if targets = [] then ([], tr)
             else if \<not> pdfjsLib w then ([], pushTrace tr ''ocr-adaptive'' Error)
             else if \<not> tesseract w then ([], pushTrace tr ''ocr-adaptive'' Warn)
             else case ocrNumPages w of
                None \<Rightarrow> ([], pushTrace tr ''ocr-adaptive'' Error)
              | Some numPages \<Rightarrow>
                 (let (results, t) = ocrPagesLoop w numPages targets [] tr
                  in (results, if results \<noteq> [] then pushTrace t ''ocr-adaptive'' Info else t)))"

definition serverExtractText :: "world \<Rightarrow> traceEntry list
    \<Rightarrow> serverPayload option \<times> traceEntry list" where
  "serverExtractText w tr =
    (case server w of
       FetchUnavailable \<Rightarrow> (None, pushTrace tr ''server'' Warn)
     | NotConfigured \<Rightarrow> (None, pushTrace tr ''server'' Warn)
     | HttpError code \<Rightarrow> (None, pushTrace tr ''server'' (if code = 404 then Error else Warn))
     | RequestThrows \<Rightarrow> (None, pushTrace tr ''server'' Error)
     | Payload payload \<Rightarrow> (Some payload, pushTrace tr ''server'' Info))"

section \<open>Adaptive per-page OCR patch\<close>

definition lowQualityPagesOf :: "jsstring list \<Rightarrow> nat list" where
  "lowQualityPagesOf pgs =
    map (\<lambda>(index, sc). index + 1)
      (filter (\<lambda>(index, sc). sc < OCR_QUALITY_THRESHOLD) (enumerate 0 (map computeQuality pgs)))"

text \<open>\<^verbatim>\<open>while (pages.length < pageNumber) pages.push(''); pages[pageNumber - 1] = normalized\<close>.
  For page number 0 the assignment sets the property \<^verbatim>\<open>-1\<close> and leaves the elements alone.\<close>

definition setPage :: "jsstring list \<Rightarrow> nat \<Rightarrow> jsstring \<Rightarrow> jsstring list" where
  "setPage pgs pageNumber normalized =
    (if pageNumber = 0 then pgs
     else (pgs @ replicate (pageNumber - length pgs) [])[pageNumber - 1 := normalized])"

text \<open>\<^verbatim>\<open>patches.forEach\<close>: the pages and the list of patched page numbers are threaded
  through.\<close>

fun applyPatches :: "(nat \<times> jsstring) list \<Rightarrow> jsstring list \<Rightarrow> nat list
    \<Rightarrow> jsstring list \<times> nat list" where
  "applyPatches [] pgs patchedPages = (pgs, patchedPages)"
| "applyPatches ((pageNumber, t) # rest) pgs patchedPages =
    (let normalized = trim (collapseWs t)
     in if normalized = [] then applyPatches rest pgs patchedPages
        else applyPatches rest (setPage pgs pageNumber normalized) (patchedPages @ [pageNumber]))"

definition adaptivePatch :: "world \<Rightarrow> stageResult \<Rightarrow> pageMeta \<Rightarrow> traceEntry list
    \<Rightarrow> stageResult \<times> pageMeta \<times> traceEntry list" where
  "adaptivePatch w pdfResult pdfMeta tr =
    (let lowQualityPages = lowQualityPagesOf (pages pdfMeta)
     in if lowQualityPages \<noteq> [] then
          (let (patches, t1) = ocrPdfPages w lowQualityPages tr;
               (newPages, patchedPages) = applyPatches patches (pages pdfMeta) []
           in if patchedPages \<noteq> [] then
                (pdfResult\<lparr>stext := joinWith [10] newPages\<rparr>,
                 pdfMeta\<lparr>pages := newPages,
                         pageTaggedText := buildPageTaggedText newPages,
                         ocrPatchedPages := Some patchedPages,
                         pageCount := (if length newPages \<noteq> 0 then length newPages
                                       else layoutPageCount pdfMeta)\<rparr>,
                 pushTrace t1 ''ocr-adaptive'' Info)
              else (pdfResult, pdfMeta\<lparr>pages := newPages\<rparr>, t1))
        else (pdfResult, pdfMeta, tr))"

section \<open>Extraction orchestrator\<close>

datatype failure =
  CorruptContent | ContentUnavailable | SourceDamaged | DataUrlReadError | TypeError

text \<open>The result object. \<open>meta\<close> holds the page fields when the call site spreads a page
  metadata object into the result, and \<open>None\<close> when the result carries none of them.\<close>

record response =
  rtext :: jsstring
  kind :: kind
  extractor :: jsstring
  usedOcr :: bool
  quality :: rat
  trace :: "traceEntry list"
  meta :: "pageMeta option"

definition buildResponse :: "traceEntry list \<Rightarrow> kind \<Rightarrow> jsstring \<Rightarrow> jsstring \<Rightarrow> bool
    \<Rightarrow> pageMeta option \<Rightarrow> response" where
  "buildResponse tr k ex t ocr extraMeta =
    \<lparr>rtext = t, kind = k, extractor = ex, usedOcr = ocr, quality = computeQuality t,
     trace = tr, meta = extraMeta\<rparr>"

definition chooseText :: "traceEntry list \<Rightarrow> kind \<Rightarrow> jsstring \<Rightarrow> jsstring \<Rightarrow> pageMeta option
    \<Rightarrow> response" where
  "chooseText tr detectedKind t ex extra =
    buildResponse tr detectedKind ex t (ex = ascii ''pdf-ocr'') extra"

text \<open>The structural pass and the adaptive patch: the effective text, the page metadata
  and the trace that the acceptance check starts from.\<close>

definition structuralStage :: "world \<Rightarrow> traceEntry list \<Rightarrow> jsstring \<times> pageMeta \<times> traceEntry list" where
  "structuralStage w tr =
    (let (pdfResult, t1) = renderPdfWithPdfjs w tr;
         pdfMeta = buildPageMeta (stext pdfResult) (spages pdfResult) (slayout pdfResult);
         (pdfResult', pdfMeta', t2) = adaptivePatch w pdfResult pdfMeta t1
     in (trim (stext pdfResult'), pdfMeta', t2))"

definition ocrFallback :: "world \<Rightarrow> kind \<Rightarrow> traceEntry list \<Rightarrow> response" where
  "ocrFallback w detectedKind tr =
    (let (ocr, t) = ocrPdf w tr 10
     in if stext ocr \<noteq> [] \<and> length (trim (stext ocr)) \<ge> 40 then
          (let ocrPages = (if spages ocr \<noteq> [] then spages ocr else [stext ocr])
           in buildResponse t detectedKind (ascii ''pdf-ocr'') (stext ocr) True
                (Some (buildPageMeta (stext ocr) ocrPages (Some (buildPlainLayout ocrPages)))))
        else chooseText (pushTrace t ''pdf'' Warn) detectedKind [] (ascii ''pdf-unreadable'') None)"

text \<open>\<^verbatim>\<open>serverResult?.text && serverResult.text.trim().length >= 40\<close>: a truthy text that is
  not a string has no \<^verbatim>\<open>trim\<close>, and \<^verbatim>\<open>buildPlainLayout\<close> calls \<^verbatim>\<open>split\<close> on every page; both
  raise a \<^verbatim>\<open>TypeError\<close> outside any \<^verbatim>\<open>try\<close>. \<open>serverFailedOrShort\<close> says that the service
  failed, answered without text, or answered with fewer than 40 characters after trimming.\<close>

definition serverFailedOrShort :: "serverPayload option \<Rightarrow> bool" where
  "serverFailedOrShort r =
    (case r of
       None \<Rightarrow> True
     | Some payload \<Rightarrow>
        (case ptext payload of
           Falsy \<Rightarrow> True
         | StringValue s \<Rightarrow> \<not> (s \<noteq> [] \<and> length (trim s) \<ge> 40)
         | OtherValue \<Rightarrow> False))"

definition serverFallback :: "world \<Rightarrow> kind \<Rightarrow> traceEntry list \<Rightarrow> failure + response" where
  "serverFallback w detectedKind tr =
    (let (serverResult, t) = serverExtractText w tr
     in case serverResult of
          None \<Rightarrow> Inr (ocrFallback w detectedKind t)
        | Some payload \<Rightarrow>
           (case ptext payload of
              Falsy \<Rightarrow> Inr (ocrFallback w detectedKind t)
            | OtherValue \<Rightarrow> Inl TypeError
            | StringValue s \<Rightarrow>
               (if s \<noteq> [] \<and> length (trim s) \<ge> 40 then
                  (let serverPages = (case pmetaPages payload of Some ps \<Rightarrow> ps | None \<Rightarrow> [Some s])
                   in if list_ex (\<lambda>page. page = None) serverPages then Inl TypeError
                      else
                        (let pgs = map orEmpty serverPages;
                             m = buildPageMeta s pgs (Some (buildPlainLayout pgs))
                         in Inr (chooseText t detectedKind s
                                   (if pextractor payload \<noteq> [] then pextractor payload
                                    else ascii ''server-pymupdf'')
                                   (Some m))))
                else Inr (ocrFallback w detectedKind t))))"

definition pdfPath :: "world \<Rightarrow> kind \<Rightarrow> traceEntry list \<Rightarrow> failure + response" where
  "pdfPath w detectedKind tr =
    (let (effectivePdfText, pdfMeta, t) = structuralStage w tr;
         pdfAssessment = evaluateSoftPdfAcceptance () (Some effectivePdfText)
     in if effectivePdfText \<noteq> [] then
          Inr (chooseText
                 (if \<not> readable pdfAssessment then pushTrace t ''pdfjs'' Warn else t)
                 detectedKind effectivePdfText
                 (if readable pdfAssessment then ascii ''pdfjs'' else ascii ''pdfjs-soft'')
                 (Some pdfMeta))
        else serverFallback w detectedKind t)"

definition imagePath :: "world \<Rightarrow> traceEntry list \<Rightarrow> failure + response" where
  "imagePath w tr =
    (let t = pushTrace tr ''image'' Info
     in if \<not> dataUrlReadable w then Inl DataUrlReadError
        else if \<not> tesseract w then
          Inr (buildResponse t Image (ascii ''image-preview'') [] False
                 (Some (buildPageMeta [] [] None)))
        else case imageOcr w of
           None \<Rightarrow>
             Inr (buildResponse (pushTrace t ''image'' Error) Image (ascii ''image-preview'') []
                    False (Some (buildPageMeta [] [] None)))
         | Some recognized \<Rightarrow>
             (let pgs = [recognized]
              in Inr (buildResponse t Image (ascii ''image-ocr'') recognized True
                        (Some (buildPageMeta recognized pgs (Some (buildPlainLayout pgs)))))))"

definition readFileContent :: "world \<Rightarrow> failure + response" where
  "readFileContent w =
    (case inputFile w of
       None \<Rightarrow> Inr (buildResponse (pushTrace [] ''input'' Error) Unknown (ascii ''none'') [] False None)
     | Some f \<Rightarrow>
        (case acquired w of
           AcquireThrows \<Rightarrow> Inl CorruptContent
         | AcquireNull \<Rightarrow> Inl ContentUnavailable
         | Acquired arrayBuffer \<Rightarrow>
            (if base64Throws w then Inl SourceDamaged
             else
               (let detectedKind = detectFileKind f arrayBuffer
                in if detectedKind = Docx then
                     (let (d, t) = extractDocx w []
                      in Inr (chooseText t detectedKind (stext d) (ascii ''docx'')
                                (Some (buildPageMeta (stext d) (spages d) (slayout d)))))
                   else if detectedKind = TextKind then
                     (let t = pushTrace [] ''text'' Info;
                          decoded = decodeTextBuffer (decoders w) (Some arrayBuffer);
                          pgs = [decoded]
                      in Inr (chooseText t detectedKind decoded (ascii ''text'')
                                (Some (buildPageMeta decoded pgs (Some (buildPlainLayout pgs))))))
                   else if detectedKind = Pdf then pdfPath w detectedKind []
                   else if detectedKind = Image then imagePath w []
                   else Inr (buildResponse (pushTrace [] ''binary'' Info) Binary (ascii ''binary'')
                               [] False None)))))"

section \<open>Auxiliary notions for the cluster loop\<close>

text \<open>Two auxiliary notions for reasoning about the cluster loop: the number of entries
  after \<open>prev\<close> up to the first gap above the threshold, and the closing step that
  appends the last open cluster.\<close>

fun gapIndex :: "rat \<Rightarrow> rat \<Rightarrow> rat list \<Rightarrow> nat" where
  "gapIndex thr prev [] = 0"
| "gapIndex thr prev (k # ks) = (if jsSub k prev > thr then 0 else Suc (gapIndex thr k ks))"

definition finishClusters :: "'a list list \<times> 'a list \<Rightarrow> 'a list list" where
  "finishClusters r =
    (case r of (clusters, current) \<Rightarrow> if current \<noteq> [] then clusters @ [current] else clusters)"

section \<open>Sample inputs\<close>

text \<open>A two-page PDF whose pages hold too little text to pass the page threshold; OCR
  recognises page 1 and fails on page 2. No remote service is configured.\<close>

definition pdfFile :: fileInfo where
  "pdfFile = \<lparr>fileName = Some (ascii ''scan.pdf''), fileType = Some (ascii ''application/pdf'')\<rparr>"

definition patchedPdfWorld :: world where
  "patchedPdfWorld =
    \<lparr>inputFile = Some pdfFile, acquired = Acquired [0x25, 0x50, 0x44, 0x46],
     base64Throws = False, decoders = (\<lambda>enc fatal buffer. None), pdfjsLib = True,
     pdfjsDoc = Some [[sampleBlock 0], [sampleBlock 0, sampleBlock 100]],
     canvas = True, tesseract = True, ocrNumPages = Some 2,
     pageOcr = (\<lambda>n. if n = 1 then Recognized (ascii ''scanned  text '') else RecognizeThrows),
     server = NotConfigured, docx = DocxThrows, dataUrlReadable = True, imageOcr = None\<rparr>"

text \<open>The page metadata of a three-page document before the adaptive patch: the two
  pages of the sample document and a page of five Cyrillic letters.\<close>

definition cyrillicPage :: jsstring where
  "cyrillicPage = [1090, 1077, 1082, 1089, 1090]"


text \<open>A scanned one-page PDF without a text layer; the remote service answers 503 and the
  OCR engine cannot be loaded.\<close>

definition scannedPdfWorld :: world where
  "scannedPdfWorld =
    \<lparr>inputFile = Some pdfFile, acquired = Acquired [0x25, 0x50, 0x44, 0x46],
     base64Throws = False, decoders = (\<lambda>enc fatal buffer. None), pdfjsLib = True,
     pdfjsDoc = Some [[]],
     canvas = True, tesseract = False, ocrNumPages = Some 1,
     pageOcr = (\<lambda>n. NoContext),
     server = HttpError 503, docx = DocxThrows, dataUrlReadable = True, imageOcr = None\<rparr>"

text \<open>The same document when the remote service answers 200 with a JSON body whose
  \<^verbatim>\<open>text\<close> is a number.\<close>

definition malformedServerWorld :: world where
  "malformedServerWorld =
    scannedPdfWorld\<lparr>server := Payload \<lparr>ptext = OtherValue, pmetaPages = None, pextractor = []\<rparr>\<rparr>"

text \<open>The same document when the remote service returns 40 letters of text and names its
  extractor \<^verbatim>\<open>image-ocr\<close>.\<close>

definition serverImageOcrWorld :: world where
  "serverImageOcrWorld =
    scannedPdfWorld\<lparr>server := Payload \<lparr>ptext = StringValue (replicate 40 97), pmetaPages = None,
                                         pextractor = ascii ''image-ocr''\<rparr>\<rparr>"

text \<open>A PNG image that can be read into a buffer but whose second read, as a data URL,
  fails.\<close>

definition imageFile :: fileInfo where
  "imageFile = \<lparr>fileName = Some (ascii ''photo.png''), fileType = Some (ascii ''image/png'')\<rparr>"

definition imageReadFailureWorld :: world where
  "imageReadFailureWorld =
    \<lparr>inputFile = Some imageFile, acquired = Acquired [0x89, 0x50, 0x4E, 0x47],
     base64Throws = False, decoders = (\<lambda>enc fatal buffer. None), pdfjsLib = True,
     pdfjsDoc = None, canvas = True, tesseract = True, ocrNumPages = None,
     pageOcr = (\<lambda>n. NoContext), server = NotConfigured, docx = DocxThrows,
     dataUrlReadable = False, imageOcr = Some (ascii ''text'')\<rparr>"

text \<open>A text of 36 code units: 26 Cyrillic letters, 9 digits and a Latin letter, 7 distinct
  code units in all.\<close>

definition boundaryText :: jsstring where
  "boundaryText =
    [1072, 1072, 1072, 1072, 1072, 1072, 1072, 1072, 1072, 1072, 1072, 1072, 1072,
     1072, 1072, 1072, 1072, 1072, 1072, 1072, 1072, 1072, 1072, 1072, 1072, 1072,
     49, 50, 51, 52, 53, 49, 50, 51, 52, 120]"

text \<open>Two readings of one buffer of 68 bytes (32 bytes 80, 31 bytes FF, 5 bytes 41): under
  Windows-1251 it is 32 letters U+0402, 31 letters U+044F and 5 letters A; under IBM866 it is
  32 letters U+0410, 31 no-break spaces and 5 letters A.\<close>

definition windows1251Reading :: jsstring where
  "windows1251Reading =
    [1026, 1026, 1026, 1026, 1026, 1026, 1026, 1026, 1026, 1026, 1026, 1026, 1026, 1026,
     1026, 1026, 1026, 1026, 1026, 1026, 1026, 1026, 1026, 1026, 1026, 1026, 1026, 1026,
     1026, 1026, 1026, 1026, 1103, 1103, 1103, 1103, 1103, 1103, 1103, 1103, 1103, 1103,
     1103, 1103, 1103, 1103, 1103, 1103, 1103, 1103, 1103, 1103, 1103, 1103, 1103, 1103,
     1103, 1103, 1103, 1103, 1103, 1103, 1103, 65, 65, 65, 65, 65]"

definition ibm866Reading :: jsstring where
  "ibm866Reading =
    [1040, 1040, 1040, 1040, 1040, 1040, 1040, 1040, 1040, 1040, 1040, 1040, 1040, 1040,
     1040, 1040, 1040, 1040, 1040, 1040, 1040, 1040, 1040, 1040, 1040, 1040, 1040, 1040,
     1040, 1040, 1040, 1040, 160, 160, 160, 160, 160, 160, 160, 160, 160, 160, 160, 160,
     160, 160, 160, 160, 160, 160, 160, 160, 160, 160, 160, 160, 160, 160, 160, 160, 160,
     160, 160, 65, 65, 65, 65, 65]"

text \<open>Three blocks on a page of width 600. The first two have the horizontal extents
  \<^verbatim>\<open>9.28 .. 82.46\<close> and \<^verbatim>\<open>88.1 .. 99.64\<close>, whose centers \<^verbatim>\<open>45.87\<close> and \<^verbatim>\<open>93.87\<close> differ by
  \<^verbatim>\<open>48.00000000000001\<close>, just above the threshold 48 of the page.\<close>

definition columnBlock :: "rat \<Rightarrow> rat \<Rightarrow> block" where
  "columnBlock x1 x2 = \<lparr>bid = ascii ''b'', btext = ascii ''cell'', bx1 = x1, by1 = 10, bx2 = x2,
     by2 = 20\<rparr>"

definition columnBlocks :: "block list" where
  "columnBlocks =
    [columnBlock (binary64 (928 / 100)) (binary64 (8246 / 100)),
     columnBlock (binary64 (881 / 10)) (binary64 (9964 / 100)),
     columnBlock 100 140]"

section \<open>Facts about strings\<close>

lemma ascii_simps: "ascii [] = []" "ascii (c # cs) = of_char c # ascii cs"
  by (simp_all add: ascii_def)

lemma collapseWs_no_space: "\<forall>c\<in>set s. \<not> isSpace c \<Longrightarrow> collapseWs s = s"
  by (induction s) auto

lemma not_space_a: "\<not> isSpace 97"
  by (simp add: isSpace_def)

lemma space_32: "isSpace 32"
  by (simp add: isSpace_def)

section \<open>Facts about numbers\<close>

lemma floor_rat_numeral: "\<lfloor>(numeral a / numeral b :: rat)\<rfloor> = numeral a div numeral b"
  by (metis floor_divide_of_int_eq of_int_numeral)

lemma floor_rat_neg_numeral:
  "\<lfloor>(- (numeral a / numeral b) :: rat)\<rfloor> = - numeral a div numeral b"
  by (metis divide_minus_left floor_divide_of_int_eq of_int_neg_numeral of_int_numeral)

lemma floor_rat_one_numeral: "\<lfloor>(1 / numeral b :: rat)\<rfloor> = 1 div numeral b"
  by (metis floor_divide_of_int_eq of_int_1 of_int_numeral)

lemma floor_rat_neg_one_numeral: "\<lfloor>(- (1 / numeral b) :: rat)\<rfloor> = - 1 div numeral b"
  by (metis divide_minus_left floor_divide_of_int_eq of_int_1 of_int_minus of_int_numeral)

text \<open>The equations that evaluate the arithmetic on numerals.\<close>

lemmas binary64_eval = binary64_def scaleUp.simps scaleDown.simps roundHalfEven_def Let_def
  floor_rat_numeral floor_rat_neg_numeral floor_rat_one_numeral floor_rat_neg_one_numeral
  jsAdd_def jsSub_def jsMul_def jsDiv_def

lemma binary64_zero: "binary64 0 = 0"
  by (simp add: binary64_def)

text \<open>Some values of the arithmetic: the literals \<^verbatim>\<open>0.1\<close> and \<^verbatim>\<open>0.3\<close>, the sum
  \<^verbatim>\<open>0.1 + 0.2\<close>, which is not \<^verbatim>\<open>0.3\<close>, and two integers above \<open>2 ^ 53\<close>.\<close>

lemma binary64_samples:
  "binary64 (1 / 10) = 3602879701896397 / 2 ^ 55"
  "binary64 (3 / 10) = 5404319552844595 / 2 ^ 54"
  "jsAdd (binary64 (1 / 10)) (binary64 (2 / 10)) = 5404319552844596 / 2 ^ 54"
  "binary64 (2 ^ 53 + 1) = 2 ^ 53"
  "binary64 (2 ^ 53 + 3) = 2 ^ 53 + 4"
  "binary64 (- (1 / 3)) = - (6004799503160661 / 2 ^ 54)"
  by (simp_all add: binary64_eval)

lemma roundHalfEven_lower: "\<lfloor>y\<rfloor> \<le> roundHalfEven y"
  by (simp add: roundHalfEven_def Let_def)

lemma roundHalfEven_minus: "roundHalfEven (- y) = - roundHalfEven y"
proof (cases "y = of_int \<lfloor>y\<rfloor>")
  case True
  then obtain n :: int where n: "y = of_int n" by blast
  have "- y = of_int (- n)" using n by simp
  then have "\<lfloor>- y\<rfloor> = - n" by (metis floor_of_int)
  then show ?thesis using n by (simp add: roundHalfEven_def Let_def)
next
  case False
  have f: "\<lfloor>- y\<rfloor> = - \<lfloor>y\<rfloor> - 1"
    using False by (metis ceiling_altdef ceiling_def add.commute diff_minus_eq_add minus_diff_eq uminus_add_conv_diff minus_minus)
  show ?thesis
    unfolding roundHalfEven_def Let_def f
    by (auto simp: algebra_simps)
qed

lemma scaleUp_spec: "0 < y \<Longrightarrow> y < 2 ^ 52 \<Longrightarrow> 2 ^ 52 \<le> y * 2 ^ scaleUp y"
proof (induction y rule: scaleUp.induct)
  case (1 y)
  have u: "scaleUp y = Suc (scaleUp (2 * y))"
    using "1.prems" by (subst scaleUp.simps) simp
  show ?case
  proof (cases "2 * y < 2 ^ 52")
    case True
    have "2 ^ 52 \<le> 2 * y * 2 ^ scaleUp (2 * y)"
      using "1.IH" "1.prems" True by simp
    then show ?thesis unfolding u by (simp add: mult.assoc mult.left_commute)
  next
    case False
    then have "scaleUp (2 * y) = 0" by (subst scaleUp.simps) simp
    then show ?thesis unfolding u using False by simp
  qed
qed

lemma scaleDown_spec: "2 ^ 52 \<le> y \<Longrightarrow> 2 ^ 52 \<le> y / 2 ^ scaleDown y"
proof (induction y rule: scaleDown.induct)
  case (1 y)
  show ?case
  proof (cases "y < 2 ^ 53")
    case True
    then have "scaleDown y = 0" by (subst scaleDown.simps) simp
    then show ?thesis using "1.prems" by simp
  next
    case False
    then have u: "scaleDown y = Suc (scaleDown (y / 2))" by (subst scaleDown.simps) simp
    have "2 ^ 52 \<le> y / 2" using False by simp
    then have "2 ^ 52 \<le> y / 2 / 2 ^ scaleDown (y / 2)" using "1.IH" False by simp
    then show ?thesis unfolding u by (simp add: field_simps)
  qed
qed

text \<open>Rounding keeps the sign: a sum, difference, product or quotient is zero, positive or
  negative as the exact value is. In particular the comparator \<^verbatim>\<open>a.center - b.center\<close> of
  the column sort orders the entries as their centers compare.\<close>

lemma binary64_pos: "0 < x \<Longrightarrow> 0 < binary64 x"
proof -
  assume x: "0 < x"
  have p: "0 < roundHalfEven z" if "2 ^ 52 \<le> z" for z
  proof -
    have "(2 ^ 52 :: int) \<le> \<lfloor>z\<rfloor>" using that by (simp add: le_floor_iff)
    then have r: "2 ^ 52 \<le> roundHalfEven z" using roundHalfEven_lower [of z] by linarith
    have "(0::int) < 2 ^ 52" by simp
    then show ?thesis using r by (rule less_le_trans)
  qed
  show ?thesis
  proof (cases "x < 2 ^ 52")
    case True
    have "2 ^ 52 \<le> x * 2 ^ scaleUp x" using x True by (rule scaleUp_spec)
    then have "0 < roundHalfEven (x * 2 ^ scaleUp x)" by (rule p)
    then show ?thesis using x True by (simp add: binary64_def Let_def)
  next
    case False
    then have "2 ^ 52 \<le> x / 2 ^ scaleDown x" by (intro scaleDown_spec) simp
    then have "0 < roundHalfEven (x / 2 ^ scaleDown x)" by (rule p)
    then show ?thesis using x False by (simp add: binary64_def Let_def)
  qed
qed

lemma binary64_minus: "binary64 (- x) = - binary64 x"
  by (simp add: binary64_def Let_def roundHalfEven_minus)

lemma binary64_sign:
  "(0 < binary64 x) = (0 < x)" "(binary64 x < 0) = (x < 0)" "(binary64 x = 0) = (x = 0)"
proof -
  have n: "binary64 x < 0" if "x < 0"
    using binary64_pos [of "- x"] that by (simp add: binary64_minus)
  have z: "binary64 0 = 0" by (simp add: binary64_def)
  show "(0 < binary64 x) = (0 < x)"
    using binary64_pos [of x] n z by (cases "x < 0"; cases "x = 0") force+
  show "(binary64 x < 0) = (x < 0)"
    using binary64_pos [of x] n z by (cases "x < 0"; cases "x = 0") force+
  show "(binary64 x = 0) = (x = 0)"
    using binary64_pos [of x] n z by (cases "x < 0"; cases "x = 0") force+
qed

lemma jsSub_sign: "(jsSub a b < 0) = (a < b)" "(jsSub a b = 0) = (a = b)" "(0 < jsSub a b) = (b < a)"
  by (simp_all add: jsSub_def binary64_sign)

section \<open>Kind detector: the PDF signature\<close>

text \<open>
  Claim C4. A buffer whose first four bytes are \<^verbatim>\<open>%PDF\<close> is classified as \<open>Pdf\<close>, whatever
  the declared file name and MIME type are (including none at all).
\<close>

theorem detectFileKind_pdf_magic:
  "take 4 buffer = [0x25, 0x50, 0x44, 0x46] \<Longrightarrow> detectFileKind f buffer = Pdf"
proof -
  assume h: "take 4 buffer = [0x25, 0x50, 0x44, 0x46]"
  then obtain rest where b: "buffer = 0x25 # 0x50 # rest"
    by (cases buffer; cases "tl buffer") (auto simp: take_Cons' split: if_splits)
  show ?thesis
    by (simp add: detectFileKind_def Let_def b byteAt_def)
qed

theorem detectFileKind_pdf_magic_witness:
  "take 4 [0x25, 0x50, 0x44, 0x46, 0x2D :: 8 word] = [0x25, 0x50, 0x44, 0x46]
   \<and> detectFileKind \<lparr>fileName = Some (ascii ''scan.docx''), fileType = Some (ascii ''image/png'')\<rparr>
        [0x25, 0x50, 0x44, 0x46, 0x2D] = Pdf"
  using detectFileKind_pdf_magic [of "[0x25, 0x50, 0x44, 0x46, 0x2D]"
      "\<lparr>fileName = Some (ascii ''scan.docx''), fileType = Some (ascii ''image/png'')\<rparr>"]
  by simp

section \<open>Quality assessor: the acceptance verdict\<close>

lemma collapseWs_space_run: "collapseWs (32 # replicate 199 97) = 32 # replicate 199 97"
proof -
  have a: "dropWhile isSpace (replicate 199 97) = replicate 199 97"
    by (simp add: dropWhile_eq_self_iff not_space_a)
  show ?thesis using a space_32 by (simp add: collapseWs_no_space not_space_a)
qed

lemma trim_space_run: "trim (32 # replicate 199 97) = replicate 199 97"
proof -
  have "dropWhile isSpace (replicate 199 97) = replicate 199 97"
    by (simp add: dropWhile_eq_self_iff not_space_a)
  moreover have "dropWhile isSpace (rev (replicate 199 97)) = replicate 199 97"
    by (simp add: dropWhile_eq_self_iff not_space_a)
  ultimately show ?thesis using space_32 by (simp add: trim_def)
qed

lemma specReadable_space_run: "specReadable (32 # replicate 199 97)"
  by (simp add: specReadable_def Let_def collapseWs_space_run del: collapseWs.simps)

lemma not_readable_space_run:
  "\<not> readable (evaluateSoftPdfAcceptance () (Some (32 # replicate 199 97)))"
  by (simp add: evaluateSoftPdfAcceptance_def Let_def orEmpty_def collapseWs_space_run
      trim_space_run countMatches_def isCyrillic_def isDigit_def MIN_USEFUL_TEXT_LENGTH_def
      del: collapseWs.simps)
    (simp add: binary64_eval)

text \<open>A text of 36 code units (26 Cyrillic letters, 9 digits, 7 distinct code units) whose
  score is 12 in exact arithmetic: the sum of the four rounded terms is the number below
  12, and the text is not readable.\<close>

lemma boundaryText_clean: "trim (collapseWs boundaryText) = boundaryText"
  by (simp add: boundaryText_def trim_def isSpace_def)

lemma boundaryText_counts:
  "length boundaryText = 36" "countMatches isCyrillic boundaryText = 26"
  "countMatches isDigit boundaryText = 9" "card (set boundaryText) = 7"
  by (simp_all add: boundaryText_def countMatches_def isCyrillic_def isDigit_def card_insert_if)

lemma boundaryText_verdict:
  "evaluateSoftPdfAcceptance () (Some boundaryText)
   = \<lparr>readable = False, reason = ''too-short'', score = Num (12 - 1 / 2 ^ 49),
      cleanedText = boundaryText\<rparr>"
proof -
  have ne: "boundaryText \<noteq> []" by (simp add: boundaryText_def)
  show ?thesis
    using ne
    by (simp add: evaluateSoftPdfAcceptance_def Let_def orEmpty_def boundaryText_clean
        boundaryText_counts MIN_USEFUL_TEXT_LENGTH_def del: collapseWs.simps)
      (simp add: binary64_eval)
qed

text \<open>
  Claim C3, as stated, fails. On the empty text the function reports the score
  \<^verbatim>\<open>-Infinity\<close>, not the value 0 of the formula; and the counts are taken after trimming
  as well as collapsing: a space followed by 199 letters collapses to 200 code units, which
  the stated predicate accepts, while the function sees 199 and rejects.
\<close>

theorem evaluateSoftPdfAcceptance_spec_counterexample:
  "score (evaluateSoftPdfAcceptance () (Some [])) \<noteq> specScore []
   \<and> specReadable (32 # replicate 199 97)
   \<and> \<not> readable (evaluateSoftPdfAcceptance () (Some (32 # replicate 199 97)))"
proof -
  have "score (evaluateSoftPdfAcceptance () (Some [])) \<noteq> specScore []"
    by (simp add: evaluateSoftPdfAcceptance_def specScore_def orEmpty_def trim_def countMatches_def)
  then show ?thesis using specReadable_space_run not_readable_space_run by simp
qed

text \<open>
  Claim C3, amended. The result depends on the text argument only. With \<open>cleaned\<close> the
  text collapsed and trimmed: the score is \<^verbatim>\<open>-Infinity\<close> when \<open>cleaned\<close> is empty and
  \<open>length/80 + cyrillic*0.4 + digits*0.05 + unique*0.1\<close> otherwise, computed from left to
  right in binary64 arithmetic, and the text is reported readable exactly when one of the
  five stated conditions holds of \<open>cleaned\<close>, the last one comparing that number with 12.
\<close>

theorem evaluateSoftPdfAcceptance_verdict:
  fixes a :: 'a and a' :: 'b
  shows "evaluateSoftPdfAcceptance a t = evaluateSoftPdfAcceptance a' t
   \<and> (let cleaned = trim (collapseWs (orEmpty t));
           len = length cleaned;
           cyrillic = countMatches isCyrillic cleaned;
           digits = countMatches isDigit cleaned;
           sc = jsAdd (jsAdd (jsAdd (jsDiv (rat_of_nat len) 80)
                                    (jsMul (rat_of_nat cyrillic) (binary64 (4 / 10))))
                             (jsMul (rat_of_nat digits) (binary64 (5 / 100))))
                      (jsMul (rat_of_nat (card (set cleaned))) (binary64 (1 / 10)))
       in cleanedText (evaluateSoftPdfAcceptance a t) = cleaned
          \<and> score (evaluateSoftPdfAcceptance a t) = (if cleaned = [] then NegInfinity else Num sc)
          \<and> readable (evaluateSoftPdfAcceptance a t)
              = (len \<ge> 200 \<or> (len \<ge> 120 \<and> cyrillic > 40) \<or> (len \<ge> 120 \<and> digits > 30)
                 \<or> (len \<ge> 70 \<and> cyrillic \<ge> 20 \<and> digits \<ge> 2) \<or> sc \<ge> 12))"
  by (simp add: evaluateSoftPdfAcceptance_def Let_def MIN_USEFUL_TEXT_LENGTH_def
      countMatches_def jsAdd_def jsMul_def jsDiv_def binary64_zero del: collapseWs.simps)

section \<open>Table detection: one region per run\<close>

lemma tableLoop_runs:
  "(case tableLoop n ls tables current of (ts, cur) \<Rightarrow> if cur \<noteq> [] then ts @ [cur] else ts)
   = tables @ (if current = [] then maximalRuns (tableCandidate n) ls
               else (current @ takeWhile (tableCandidate n) ls)
                    # maximalRuns (tableCandidate n) (dropWhile (tableCandidate n) ls))"
proof (induction ls arbitrary: tables current)
  case Nil
  then show ?case by simp
next
  case (Cons l ls)
  show ?case
  proof (cases "tableCandidate n l")
    case True
    then show ?thesis using Cons.IH [of tables "current @ [l]"] by simp
  next
    case False
    then show ?thesis using Cons.IH [of "tables @ [current]" "[]"] Cons.IH [of tables "[]"]
      by simp
  qed
qed

lemma sampleLine_candidate: "tableCandidate 3 sampleLine"
  by (simp add: tableCandidate_def sampleLine_def sampleBlock_def meaningful_def ascii_simps
      trim_def isSpace_def)

text \<open>
  Claim C2, as stated, fails: the loop closes a table for every non-empty run and never
  looks at the run's length. A single line with three text blocks is a run of one line;
  the stated rule gives no table, the function gives one.
\<close>

theorem detectTableRows_short_run_counterexample:
  "specTableRuns [sampleLine] = [] \<and> length (detectTableRows [sampleLine] 3) = 1"
  using sampleLine_candidate
  by (simp add: specTableRuns_def detectTableRows_def)

text \<open>
  Claim C2, amended. For every list of lines, \<open>detectTableRows\<close> produces exactly one region
  for each maximal non-empty run of consecutive lines that each hold at least
  \<open>minColumns\<close> blocks with non-empty text, in order and numbered from 1; the rows of a
  region are the lines of its run, and the cells of a row are all blocks of the line sorted
  by their left edge.
\<close>

theorem detectTableRows_maximal_runs:
  "detectTableRows lines minColumns
     = map (\<lambda>(index, run). \<lparr>tid = ascii ''table-'' @ showNat (index + 1),
                             rows = map (\<lambda>row. \<lparr>ry = roundCoord (ly row),
                                                  cells = map mkCell (sort_key bx1 (lblocks row))\<rparr>) run\<rparr>)
         (enumerate 0 (maximalRuns (tableCandidate minColumns) lines))"
proof -
  obtain ts cur where tl: "tableLoop minColumns lines [] [] = (ts, cur)"
    by (cases "tableLoop minColumns lines [] []")
  have eq: "(if cur \<noteq> [] then ts @ [cur] else ts) = maximalRuns (tableCandidate minColumns) lines"
    using tableLoop_runs [of minColumns lines "[]" "[]"] by (simp add: tl)
  have "detectTableRows lines minColumns
        = map (\<lambda>(index, tableLines). mkTable index tableLines)
            (enumerate 0 (if cur \<noteq> [] then ts @ [cur] else ts))"
    by (simp add: detectTableRows_def tl)
  then show ?thesis
    unfolding eq by (simp add: mkTable_def mkRow_def [abs_def])
qed

section \<open>Column detection: independence of the block order\<close>

lemma splitClusters_Cons:
  "splitClusters thr (x # xs) = finishClusters (clusterLoop thr x xs [] [x])"
  by (simp add: splitClusters_def finishClusters_def split: prod.splits)

lemma clusterLoop_gapIndex:
  "current \<noteq> [] \<Longrightarrow>
   finishClusters (clusterLoop thr prev es clusters current)
   = clusters @ ((current @ take (gapIndex thr (fst prev) (map fst es)) es)
                 # splitClusters thr (drop (gapIndex thr (fst prev) (map fst es)) es))"
proof (induction es arbitrary: prev clusters current)
  case Nil
  then show ?case by (simp add: finishClusters_def splitClusters_def)
next
  case (Cons e es)
  show ?case
  proof (cases "jsSub (fst e) (fst prev) > thr")
    case True
    have "finishClusters (clusterLoop thr prev (e # es) clusters current)
          = finishClusters (clusterLoop thr e es (clusters @ [current]) [e])"
      using True by simp
    also have "\<dots> = (clusters @ [current]) @ (([e] @ take (gapIndex thr (fst e) (map fst es)) es)
                 # splitClusters thr (drop (gapIndex thr (fst e) (map fst es)) es))"
      by (rule Cons.IH) simp
    also have "\<dots> = clusters @ (current # splitClusters thr (e # es))"
      using Cons.IH [of "[e]" e "[]"] by (simp add: splitClusters_Cons)
    finally show ?thesis using True by simp
  next
    case False
    then show ?thesis using Cons.IH [of "current @ [e]" e clusters] by simp
  qed
qed

lemma splitClusters_rec:
  "splitClusters thr (x # xs)
   = (x # take (gapIndex thr (fst x) (map fst xs)) xs)
     # splitClusters thr (drop (gapIndex thr (fst x) (map fst xs)) xs)"
  using clusterLoop_gapIndex [of "[x]" thr x xs "[]"] by (simp add: splitClusters_Cons)

lemma splitClusters_spec: "splitClusters thr xs = specClusters thr xs"
proof (induction thr xs rule: specClusters.induct)
  case (1 thr)
  then show ?case by (simp add: splitClusters_def)
next
  case (2 thr x)
  then show ?case by (simp add: splitClusters_rec) (simp add: splitClusters_def)
next
  case (3 thr x y zs)
  show ?case
  proof (cases "jsSub (fst y) (fst x) > thr")
    case True
    then show ?thesis using 3 by (simp add: splitClusters_rec [of thr x])
  next
    case False
    have "specClusters thr (y # zs) = splitClusters thr (y # zs)" using 3 False by simp
    then have "specClusters thr (y # zs)
        = (y # take (gapIndex thr (fst y) (map fst zs)) zs)
          # splitClusters thr (drop (gapIndex thr (fst y) (map fst zs)) zs)"
      by (simp only: splitClusters_rec)
    then show ?thesis using False by (simp add: splitClusters_rec [of thr x])
  qed
qed

text \<open>The clusters of the rule partition the sorted sequence into non-empty consecutive
  segments.\<close>

lemma specClusters_concat:
  "concat (specClusters thr xs) = xs \<and> [] \<notin> set (specClusters thr xs)"
proof (induction thr xs rule: specClusters.induct)
  case (1 thr)
  then show ?case by simp
next
  case (2 thr x)
  then show ?case by simp
next
  case (3 thr x y zs)
  show ?case
  proof (cases "jsSub (fst y) (fst x) > thr")
    case True
    then show ?thesis using 3 by simp
  next
    case False
    then have ih: "concat (specClusters thr (y # zs)) = y # zs"
      "[] \<notin> set (specClusters thr (y # zs))" using 3 by simp_all
    then obtain c cs where c: "specClusters thr (y # zs) = c # cs"
      by (cases "specClusters thr (y # zs)") auto
    show ?thesis using False ih c by simp
  qed
qed

lemma gapIndex_below:
  "sorted (prev # ks) \<Longrightarrow> 0 \<le> thr \<Longrightarrow> gapIndex thr prev ks < length ks
   \<Longrightarrow> \<forall>a\<in>set (prev # take (gapIndex thr prev ks) ks). a < ks ! gapIndex thr prev ks"
proof (induction ks arbitrary: prev)
  case Nil
  then show ?case by simp
next
  case (Cons k ks)
  show ?case
  proof (cases "jsSub k prev > thr")
    case True
    have "k \<noteq> prev"
    proof
      assume "k = prev"
      then have "jsSub k prev = 0" by (simp add: jsSub_def binary64_zero)
      then show False using True Cons.prems(2) by simp
    qed
    moreover have "prev \<le> k" using Cons.prems(1) by simp
    ultimately have "prev < k" by simp
    then show ?thesis using True by simp
  next
    case False
    then have n: "gapIndex thr prev (k # ks) = Suc (gapIndex thr k ks)" by simp
    have lt: "gapIndex thr k ks < length ks" using Cons.prems n by simp
    have srt: "sorted (k # ks)" using Cons.prems by simp
    have ih: "\<forall>a\<in>set (k # take (gapIndex thr k ks) ks). a < ks ! gapIndex thr k ks"
      by (rule Cons.IH [OF srt Cons.prems(2) lt])
    have "prev \<le> k" using Cons.prems by simp
    then show ?thesis using ih n by auto
  qed
qed

lemma sorted_split_filter:
  fixes xs :: "(rat \<times> 'b) list"
  assumes "sorted (map fst xs)" "n < length xs" "\<forall>e\<in>set (take n xs). fst e < fst (xs ! n)"
  shows "filter (\<lambda>e. fst e < fst (xs ! n)) xs = take n xs"
    and "filter (\<lambda>e. \<not> fst e < fst (xs ! n)) xs = drop n xs"
proof -
  have app: "xs = take n xs @ drop n xs" by simp
  have hi: "\<forall>e\<in>set (drop n xs). fst (xs ! n) \<le> fst e"
  proof
    fix e assume "e \<in> set (drop n xs)"
    then obtain i where i: "i < length (drop n xs)" "e = drop n xs ! i"
      by (auto simp: in_set_conv_nth)
    then have e: "e = xs ! (n + i)" and b: "n + i < length xs" by auto
    have "map fst xs ! n \<le> map fst xs ! (n + i)"
      using assms(1) b by (intro sorted_nth_mono) auto
    then show "fst (xs ! n) \<le> fst e" using e b assms(2) by simp
  qed
  have f1: "filter (\<lambda>e. fst e < fst (xs ! n)) (take n xs) = take n xs"
    using assms(3) by (simp add: filter_id_conv)
  have f2: "filter (\<lambda>e. fst e < fst (xs ! n)) (drop n xs) = []"
    using hi by (auto simp: filter_empty_conv)
  have "filter (\<lambda>e. fst e < fst (xs ! n)) xs
        = filter (\<lambda>e. fst e < fst (xs ! n)) (take n xs) @ filter (\<lambda>e. fst e < fst (xs ! n)) (drop n xs)"
    by (metis app filter_append)
  then show "filter (\<lambda>e. fst e < fst (xs ! n)) xs = take n xs" using f1 f2 by simp
  have g1: "filter (\<lambda>e. \<not> fst e < fst (xs ! n)) (take n xs) = []"
    using assms(3) by (auto simp: filter_empty_conv)
  have g2: "filter (\<lambda>e. \<not> fst e < fst (xs ! n)) (drop n xs) = drop n xs"
    using hi by (auto simp: filter_id_conv)
  have "filter (\<lambda>e. \<not> fst e < fst (xs ! n)) xs
        = filter (\<lambda>e. \<not> fst e < fst (xs ! n)) (take n xs) @ filter (\<lambda>e. \<not> fst e < fst (xs ! n)) (drop n xs)"
    by (metis app filter_append)
  then show "filter (\<lambda>e. \<not> fst e < fst (xs ! n)) xs = drop n xs" using g1 g2 by simp
qed

lemma sorted_same_mset_eq:
  fixes ks ks' :: "rat list"
  assumes "sorted ks" "sorted ks'" "mset ks = mset ks'"
  shows "ks = ks'"
  using assms by (metis properties_for_sort)

lemma mkColumn_cong:
  "mset c = mset c' \<Longrightarrow> map fst c = map fst c' \<Longrightarrow> mkColumn w i c = mkColumn w i c'"
proof -
  assume h: "mset c = mset c'" and k: "map fst c = map fst c'"
  have s: "set c = set c'" using h by (rule mset_eq_setD)
  have l: "length c = length c'" using h by (rule mset_eq_length)
  show ?thesis by (simp add: mkColumn_def s l k)
qed

lemma columns_of_clusters:
  "list_all2 (\<lambda>c c'. mset c = mset c' \<and> map fst c = map fst c') cs cs'
   \<Longrightarrow> map (\<lambda>(index, cluster). mkColumn w index cluster) (enumerate n cs)
       = map (\<lambda>(index, cluster). mkColumn w index cluster) (enumerate n cs')"
proof (induction cs cs' arbitrary: n rule: list_all2_induct)
  case Nil
  then show ?case by simp
next
  case (Cons c cs c' cs')
  then show ?case using mkColumn_cong [of c c' w n] by simp
qed

lemma splitClusters_perm:
  fixes xs ys :: "(rat \<times> block) list"
  assumes "mset xs = mset ys" "sorted (map fst xs)" "sorted (map fst ys)" "0 \<le> thr"
  shows "list_all2 (\<lambda>c c'. mset c = mset c' \<and> map fst c = map fst c')
           (splitClusters thr xs) (splitClusters thr ys)"
  using assms
proof (induction "length xs" arbitrary: xs ys rule: less_induct)
  case less
  have "mset (map fst xs) = mset (map fst ys)"
    using less.prems(1) by simp
  then have keys: "map fst xs = map fst ys"
    using less.prems(2,3) by (intro sorted_same_mset_eq)
  show ?case
  proof (cases xs)
    case Nil
    then show ?thesis using less.prems by (simp add: splitClusters_def)
  next
    case (Cons x xs')
    then obtain y ys' where ys: "ys = y # ys'" using keys by (cases ys) auto
    have kx: "fst x = fst y" and kt: "map fst xs' = map fst ys'"
      using keys Cons ys by auto
    define n where "n = gapIndex thr (fst x) (map fst xs')"
    have n': "n = gapIndex thr (fst y) (map fst ys')" using kx kt n_def by simp
    have len: "length xs' = length ys'" using kt by (metis length_map)
    have rx: "splitClusters thr xs = (x # take n xs') # splitClusters thr (drop n xs')"
      unfolding Cons n_def by (rule splitClusters_rec)
    have ry: "splitClusters thr ys = (y # take n ys') # splitClusters thr (drop n ys')"
      unfolding ys n' by (rule splitClusters_rec)
    have kc: "map fst (x # take n xs') = map fst (y # take n ys')"
      using kx kt by (simp add: take_map [symmetric] del: take_map)
    show ?thesis
    proof (cases "n < length xs'")
      case False
      then have "take n xs' = xs'" "drop n xs' = []" "take n ys' = ys'" "drop n ys' = []"
        using len by auto
      then show ?thesis using rx ry less.prems(1) Cons ys keys by (simp add: splitClusters_def)
    next
      case True
      have below: "\<forall>a\<in>set (fst x # take n (map fst xs')). a < map fst xs' ! n"
        unfolding n_def
        using less.prems(2) less.prems(4) True
        by (intro gapIndex_below) (auto simp: Cons n_def)
      have nx: "xs ! Suc n = xs' ! n" and ny: "ys ! Suc n = ys' ! n" using Cons ys by auto
      have kn: "fst (xs' ! n) = fst (ys' ! n)"
        using kt True len by (metis nth_map)
      have bx: "\<forall>e\<in>set (take (Suc n) xs). fst e < fst (xs ! Suc n)"
      proof
        fix e assume "e \<in> set (take (Suc n) xs)"
        then have "fst e \<in> set (fst x # take n (map fst xs'))"
          using Cons by (auto simp: take_map)
        then show "fst e < fst (xs ! Suc n)" using below nx True by auto
      qed
      have by': "\<forall>e\<in>set (take (Suc n) ys). fst e < fst (ys ! Suc n)"
      proof
        fix e assume "e \<in> set (take (Suc n) ys)"
        then have "fst e \<in> set (fst y # take n (map fst ys'))"
          using ys by (auto simp: take_map)
        then have "fst e \<in> set (fst x # take n (map fst xs'))"
          using kx kt by simp
        then show "fst e < fst (ys ! Suc n)" using below ny kn True by auto
      qed
      have lx: "Suc n < length xs" using True Cons by simp
      have ly: "Suc n < length ys" using True ys len by simp
      have fx1: "filter (\<lambda>e. fst e < fst (xs ! Suc n)) xs = take (Suc n) xs"
        and fx2: "filter (\<lambda>e. \<not> fst e < fst (xs ! Suc n)) xs = drop (Suc n) xs"
        using sorted_split_filter [OF less.prems(2) lx bx] by auto
      have fy1: "filter (\<lambda>e. fst e < fst (ys ! Suc n)) ys = take (Suc n) ys"
        and fy2: "filter (\<lambda>e. \<not> fst e < fst (ys ! Suc n)) ys = drop (Suc n) ys"
        using sorted_split_filter [OF less.prems(3) ly by'] by auto
      have same: "fst (xs ! Suc n) = fst (ys ! Suc n)" using nx ny kn by simp
      have m1: "mset (take (Suc n) xs) = mset (take (Suc n) ys)"
        using less.prems(1) fx1 fy1 same by (metis mset_filter)
      have m2: "mset (drop (Suc n) xs) = mset (drop (Suc n) ys)"
        using less.prems(1) fx2 fy2 same by (metis mset_filter)
      have m1': "mset (x # take n xs') = mset (y # take n ys')" using m1 Cons ys by simp
      have m2': "mset (drop n xs') = mset (drop n ys')" using m2 Cons ys by simp
      have sx: "sorted (map fst (drop n xs'))"
        using less.prems(2) Cons by (simp add: drop_map [symmetric] sorted_wrt_drop del: drop_map)
      have sy: "sorted (map fst (drop n ys'))"
        using less.prems(3) ys by (simp add: drop_map [symmetric] sorted_wrt_drop del: drop_map)
      have "length (drop n xs') < length xs" using Cons by simp
      then have "list_all2 (\<lambda>c c'. mset c = mset c' \<and> map fst c = map fst c')
                   (splitClusters thr (drop n xs')) (splitClusters thr (drop n ys'))"
        using less.hyps m2' sx sy less.prems(4) by blast
      then show ?thesis using rx ry m1' kc by simp
    qed
  qed
qed

lemma gapThreshold_nonneg: "0 \<le> gapThresholdOf w"
  by (simp add: gapThresholdOf_def max_def)

lemma clusterLoop_count:
  "current \<noteq> [] \<Longrightarrow>
   length (finishClusters (clusterLoop thr prev es clusters current))
   = length clusters
     + Suc (length (filter (\<lambda>(a, b). jsSub b a > thr) (zip (fst prev # map fst es) (map fst es))))"
proof (induction es arbitrary: prev clusters current)
  case Nil
  then show ?case by (simp add: finishClusters_def)
next
  case (Cons e es)
  show ?case
  proof (cases "jsSub (fst e) (fst prev) > thr")
    case True
    then show ?thesis using Cons.IH [of "[e]" e "clusters @ [current]"] by simp
  next
    case False
    then show ?thesis using Cons.IH [of "current @ [e]" e clusters] by simp
  qed
qed

lemma splitClusters_count:
  "xs \<noteq> [] \<Longrightarrow>
   length (splitClusters thr xs)
   = Suc (length (filter (\<lambda>(a, b). jsSub b a > thr) (zip (map fst xs) (tl (map fst xs)))))"
proof (cases xs)
  case Nil
  assume "xs \<noteq> []"
  then show ?thesis using Nil by simp
next
  case (Cons x xs')
  show ?thesis
    using clusterLoop_count [of "[x]" thr x xs' "[]"] by (simp add: Cons splitClusters_Cons)
qed

lemma sorted_centers:
  "map fst (sort_key fst (map (\<lambda>b. (blockCenter b, b)) blocks)) = sort (map blockCenter blocks)"
proof (rule sorted_same_mset_eq)
  show "sorted (map fst (sort_key fst (map (\<lambda>b. (blockCenter b, b)) blocks)))"
    by (rule sorted_sort_key)
  show "sorted (sort (map blockCenter blocks))" by simp
  show "mset (map fst (sort_key fst (map (\<lambda>b. (blockCenter b, b)) blocks)))
        = mset (sort (map blockCenter blocks))"
    by (simp add: image_mset.compositionality comp_def)
qed

text \<open>
  Claim C9. Two block lists that are permutations of each other yield the same list of
  columns (identifiers, start and end bounds, centers and block counts). For a non-empty
  list the columns are the summaries, in order, of the clusters obtained by sorting the
  blocks by center and cutting the sorted sequence at exactly the gaps between consecutive
  centers that exceed \<open>max (pageWidth * 0.08) 42\<close>, so that their number is one more than
  the number of such gaps; the empty list yields the single full-width column. All
  arithmetic is that of binary64 numbers. The coordinates and the page width are numbers
  of the range in which it neither overflows nor underflows, and the list has fewer than
  \<open>2 ^ 32\<close> blocks, as every array has.
\<close>

theorem detectColumns_permutation:
  assumes "mset blocks = mset blocks'"
    and "\<forall>b\<in>set blocks. inRange (bx1 b) \<and> inRange (bx2 b)"
    and "inRange pageWidth"
    and "length blocks < 2 ^ 32"
  shows "detectColumns blocks pageWidth = detectColumns blocks' pageWidth
    \<and> (if blocks = [] then
         detectColumns blocks pageWidth
           = [\<lparr>cid = ascii ''col-0'', cstart = 0, cend = pageWidth, ccenter = jsDiv pageWidth 2,
                blockCount = None\<rparr>]
       else
         detectColumns blocks pageWidth
           = map (\<lambda>(index, cluster).
                    \<lparr>cid = ascii ''col-'' @ showNat index,
                     cstart = roundCoord
                        (max 0 (jsSub (Min (set (map (\<lambda>item. bx1 (snd item)) cluster))) 12)),
                     cend = roundCoord
                        (min pageWidth
                           (jsAdd (Max (set (map (\<lambda>item. bx2 (snd item)) cluster))) 12)),
                     ccenter = roundCoord
                        (jsDiv (foldl jsAdd 0 (map fst cluster)) (of_nat (length cluster))),
                     blockCount = Some (length cluster)\<rparr>)
               (enumerate 0
                  (specClusters (max (jsMul pageWidth (binary64 (8 / 100))) 42)
                     (sort_key fst (map (\<lambda>b. (jsDiv (jsAdd (bx1 b) (bx2 b)) 2, b)) blocks))))
           \<and> length (detectColumns blocks pageWidth)
              = Suc (length (filter (\<lambda>(a, b). jsSub b a > max (jsMul pageWidth (binary64 (8 / 100))) 42)
                              (zip (sort (map (\<lambda>b. jsDiv (jsAdd (bx1 b) (bx2 b)) 2) blocks))
                                   (tl (sort (map (\<lambda>b. jsDiv (jsAdd (bx1 b) (bx2 b)) 2) blocks)))))))"
proof -
  let ?xs = "sort_key fst (map (\<lambda>b. (blockCenter b, b)) blocks)"
  let ?ys = "sort_key fst (map (\<lambda>b. (blockCenter b, b)) blocks')"
  have e: "(blocks = []) = (blocks' = [])" using assms(1) by (metis mset_zero_iff)
  have m: "mset ?xs = mset ?ys" using assms(1) by simp
  have "list_all2 (\<lambda>c c'. mset c = mset c' \<and> map fst c = map fst c')
          (splitClusters (gapThresholdOf pageWidth) ?xs) (splitClusters (gapThresholdOf pageWidth) ?ys)"
    using m by (intro splitClusters_perm sorted_sort_key gapThreshold_nonneg)
  then have p: "detectColumns blocks pageWidth = detectColumns blocks' pageWidth"
    using e by (simp add: detectColumns_def columns_of_clusters)
  have bc: "blockCenter = (\<lambda>b. jsDiv (jsAdd (bx1 b) (bx2 b)) 2)"
    by (rule ext) (simp add: blockCenter_def)
  have s: "blocks \<noteq> [] \<Longrightarrow> detectColumns blocks pageWidth
           = map (\<lambda>(index, cluster). mkColumn pageWidth index cluster)
               (enumerate 0 (specClusters (gapThresholdOf pageWidth) ?xs))"
    by (simp add: detectColumns_def splitClusters_spec)
  have c: "blocks \<noteq> [] \<Longrightarrow> length (detectColumns blocks pageWidth)
           = Suc (length (filter (\<lambda>(a, b). jsSub b a > gapThresholdOf pageWidth)
                           (zip (sort (map blockCenter blocks))
                                (tl (sort (map blockCenter blocks))))))"
  proof -
    assume ne: "blocks \<noteq> []"
    then have "?xs \<noteq> []" by (metis length_0_conv length_map length_sort)
    then show ?thesis
      using splitClusters_count [of ?xs "gapThresholdOf pageWidth"] ne
      by (simp add: detectColumns_def sorted_centers)
  qed
  show ?thesis
  proof (cases "blocks = []")
    case True
    then show ?thesis using p by (simp add: detectColumns_def)
  next
    case False
    show ?thesis
      using p s [OF False] c [OF False] False
      by (simp add: bc gapThresholdOf_def mkColumn_def [abs_def] Let_def)
  qed
qed

lemma columnBlocks_range:
  "\<forall>b\<in>set columnBlocks. inRange (bx1 b) \<and> inRange (bx2 b)" "inRange 600"
  "length columnBlocks < 2 ^ 32"
  by (simp_all add: columnBlocks_def columnBlock_def inRange_def binary64_eval)

lemma columnBlocks_sorted:
  "sort_key fst (map (\<lambda>b. (jsDiv (jsAdd (bx1 b) (bx2 b)) 2, b)) columnBlocks)
   = [(binary64 (4587 / 100), columnBlock (binary64 (928 / 100)) (binary64 (8246 / 100))),
      (binary64 (9387 / 100), columnBlock (binary64 (881 / 10)) (binary64 (9964 / 100))),
      (120, columnBlock 100 140)]"
  by (simp add: columnBlocks_def columnBlock_def binary64_eval)

lemma columnBlocks_clusters:
  "specClusters (max (jsMul 600 (binary64 (8 / 100))) 42)
     [(binary64 (4587 / 100), columnBlock (binary64 (928 / 100)) (binary64 (8246 / 100))),
      (binary64 (9387 / 100), columnBlock (binary64 (881 / 10)) (binary64 (9964 / 100))),
      (120, columnBlock 100 140)]
   = [[(binary64 (4587 / 100), columnBlock (binary64 (928 / 100)) (binary64 (8246 / 100)))],
      [(binary64 (9387 / 100), columnBlock (binary64 (881 / 10)) (binary64 (9964 / 100))),
       (120, columnBlock 100 140)]]"
  by (simp add: binary64_eval)

theorem detectColumns_permutation_witness:
  "mset columnBlocks = mset (rev columnBlocks)
   \<and> list_all (\<lambda>b. inRange (bx1 b) \<and> inRange (bx2 b)) columnBlocks \<and> inRange 600
   \<and> length columnBlocks < 2 ^ 32
   \<and> detectColumns columnBlocks 600 = detectColumns (rev columnBlocks) 600
   \<and> detectColumns columnBlocks 600
      = [\<lparr>cid = ascii ''col-0'', cstart = 0, cend = binary64 (9446 / 100),
           ccenter = binary64 (4587 / 100), blockCount = Some 1\<rparr>,
         \<lparr>cid = ascii ''col-1'', cstart = binary64 (761 / 10), cend = 152,
           ccenter = binary64 (10694 / 100), blockCount = Some 2\<rparr>]"
proof -
  have h: "mset columnBlocks = mset (rev columnBlocks)" by simp
  have ne: "columnBlocks \<noteq> []" by (simp add: columnBlocks_def)
  note t = detectColumns_permutation [OF h columnBlocks_range]
  have a: "detectColumns columnBlocks 600 = detectColumns (rev columnBlocks) 600"
    using t by (rule conjunct1)
  have "detectColumns columnBlocks 600
        = map (\<lambda>(index, cluster).
                    \<lparr>cid = ascii ''col-'' @ showNat index,
                     cstart = roundCoord
                        (max 0 (jsSub (Min (set (map (\<lambda>item. bx1 (snd item)) cluster))) 12)),
                     cend = roundCoord
                        (min 600
                           (jsAdd (Max (set (map (\<lambda>item. bx2 (snd item)) cluster))) 12)),
                     ccenter = roundCoord
                        (jsDiv (foldl jsAdd 0 (map fst cluster)) (of_nat (length cluster))),
                     blockCount = Some (length cluster)\<rparr>)
               (enumerate 0
                  (specClusters (max (jsMul 600 (binary64 (8 / 100))) 42)
                     (sort_key fst (map (\<lambda>b. (jsDiv (jsAdd (bx1 b) (bx2 b)) 2, b)) columnBlocks))))"
    using t [THEN conjunct2] ne by (simp only: if_False)
  then have "detectColumns columnBlocks 600
      = [\<lparr>cid = ascii ''col-0'',
           cstart = roundCoord (max 0 (jsSub (binary64 (928 / 100)) 12)),
           cend = roundCoord (min 600 (jsAdd (binary64 (8246 / 100)) 12)),
           ccenter = roundCoord (jsDiv (jsAdd 0 (binary64 (4587 / 100))) 1),
           blockCount = Some 1\<rparr>,
         \<lparr>cid = ascii ''col-1'',
           cstart = roundCoord (max 0 (jsSub (min (binary64 (881 / 10)) 100) 12)),
           cend = roundCoord (min 600 (jsAdd (max (binary64 (9964 / 100)) 140) 12)),
           ccenter = roundCoord (jsDiv (jsAdd (jsAdd 0 (binary64 (9387 / 100))) 120) 2),
           blockCount = Some 2\<rparr>]"
    unfolding columnBlocks_sorted columnBlocks_clusters
    by (simp add: columnBlock_def showNat.simps ascii_simps)
  then have "detectColumns columnBlocks 600
      = [\<lparr>cid = ascii ''col-0'', cstart = 0, cend = binary64 (9446 / 100),
           ccenter = binary64 (4587 / 100), blockCount = Some 1\<rparr>,
         \<lparr>cid = ascii ''col-1'', cstart = binary64 (761 / 10), cend = 152,
           ccenter = binary64 (10694 / 100), blockCount = Some 2\<rparr>]"
    by (simp add: roundCoord_def binary64_eval)
  then show ?thesis using h a columnBlocks_range by (simp add: list_all_iff)
qed

section \<open>Text decoder: which candidate is returned\<close>

lemma jsGt_irrefl: "\<not> jsGt a a"
  by (cases a) auto

lemma jsGt_trans: "jsGt a b \<Longrightarrow> jsGt b c \<Longrightarrow> jsGt a c"
  by (cases a; cases b; cases c) auto

lemma jsGt_asym: "jsGt a b \<Longrightarrow> \<not> jsGt b a"
  by (cases a; cases b) auto

lemma jsGt_le_trans: "jsGt a b \<Longrightarrow> \<not> jsGt c b \<Longrightarrow> jsGt a c"
  by (cases a; cases b; cases c) auto

lemma pickBest_cases:
  "(pickBest td buf encs best = best
     \<and> (\<forall>e\<in>set encs. decodeUsing td buf e False \<noteq> []
            \<longrightarrow> \<not> jsGt (scoreTextCandidate (decodeUsing td buf e False)) (fst best)))
   \<or> (\<exists>pre e post. encs = pre @ e # post
        \<and> pickBest td buf encs best
            = (scoreTextCandidate (decodeUsing td buf e False), decodeUsing td buf e False)
        \<and> decodeUsing td buf e False \<noteq> []
        \<and> jsGt (scoreTextCandidate (decodeUsing td buf e False)) (fst best)
        \<and> (\<forall>e'\<in>set pre. decodeUsing td buf e' False \<noteq> []
              \<longrightarrow> jsGt (scoreTextCandidate (decodeUsing td buf e False))
                       (scoreTextCandidate (decodeUsing td buf e' False)))
        \<and> (\<forall>e'\<in>set post. decodeUsing td buf e' False \<noteq> []
              \<longrightarrow> \<not> jsGt (scoreTextCandidate (decodeUsing td buf e' False))
                         (scoreTextCandidate (decodeUsing td buf e False))))"
  (is "?keep encs best \<or> ?pick encs best")
proof (induction encs arbitrary: best)
  case Nil
  then show ?case by simp
next
  case (Cons c encs)
  let ?T = "\<lambda>e. decodeUsing td buf e False"
  let ?S = "\<lambda>e. scoreTextCandidate (decodeUsing td buf e False)"
  show ?case
  proof (cases "?T c = []")
    case True
    then have step: "pickBest td buf (c # encs) best = pickBest td buf encs best" by simp
    from Cons.IH [of best] show ?thesis
    proof
      assume "?keep encs best"
      then have "?keep (c # encs) best" using step True by simp
      then show ?thesis ..
    next
      assume "?pick encs best"
      then obtain pre e post where p: "encs = pre @ e # post"
        "pickBest td buf encs best = (?S e, ?T e)" "?T e \<noteq> []" "jsGt (?S e) (fst best)"
        "\<forall>e'\<in>set pre. ?T e' \<noteq> [] \<longrightarrow> jsGt (?S e) (?S e')"
        "\<forall>e'\<in>set post. ?T e' \<noteq> [] \<longrightarrow> \<not> jsGt (?S e') (?S e)"
        by blast
      have "c # encs = (c # pre) @ e # post" using p(1) by simp
      moreover have "\<forall>e'\<in>set (c # pre). ?T e' \<noteq> [] \<longrightarrow> jsGt (?S e) (?S e')"
        using p(5) True by simp
      ultimately have "?pick (c # encs) best" using p step by metis
      then show ?thesis ..
    qed
  next
    case False
    show ?thesis
    proof (cases "jsGt (?S c) (fst best)")
      case gt: True
      then have step: "pickBest td buf (c # encs) best = pickBest td buf encs (?S c, ?T c)"
        using False by (simp add: Let_def)
      from Cons.IH [of "(?S c, ?T c)"] have "?pick (c # encs) best"
      proof
        assume k: "?keep encs (?S c, ?T c)"
        have "c # encs = [] @ c # encs" by simp
        moreover have "pickBest td buf (c # encs) best = (?S c, ?T c)" using k step by simp
        moreover have "\<forall>e'\<in>set encs. ?T e' \<noteq> [] \<longrightarrow> \<not> jsGt (?S e') (?S c)"
          using k by simp
        moreover have "\<forall>e'\<in>set []. ?T e' \<noteq> [] \<longrightarrow> jsGt (?S c) (?S e')" by simp
        ultimately show ?thesis using False gt by blast
      next
        assume "?pick encs (?S c, ?T c)"
        then obtain pre e post where p: "encs = pre @ e # post"
          "pickBest td buf encs (?S c, ?T c) = (?S e, ?T e)" "?T e \<noteq> []" "jsGt (?S e) (?S c)"
          "\<forall>e'\<in>set pre. ?T e' \<noteq> [] \<longrightarrow> jsGt (?S e) (?S e')"
          "\<forall>e'\<in>set post. ?T e' \<noteq> [] \<longrightarrow> \<not> jsGt (?S e') (?S e)"
          by auto
        have "c # encs = (c # pre) @ e # post" using p(1) by simp
        moreover have "pickBest td buf (c # encs) best = (?S e, ?T e)" using p(2) step by simp
        moreover have "jsGt (?S e) (fst best)" using p(4) gt by (rule jsGt_trans)
        moreover have "\<forall>e'\<in>set (c # pre). ?T e' \<noteq> [] \<longrightarrow> jsGt (?S e) (?S e')"
          using p(4) p(5) by simp
        ultimately show ?thesis using p(3) p(6) by blast
      qed
      then show ?thesis ..
    next
      case ngt: False
      then have step: "pickBest td buf (c # encs) best = pickBest td buf encs best"
        using False by (simp add: Let_def)
      from Cons.IH [of best] show ?thesis
      proof
        assume "?keep encs best"
        then have "?keep (c # encs) best" using step ngt by simp
        then show ?thesis ..
      next
        assume "?pick encs best"
        then obtain pre e post where p: "encs = pre @ e # post"
          "pickBest td buf encs best = (?S e, ?T e)" "?T e \<noteq> []" "jsGt (?S e) (fst best)"
          "\<forall>e'\<in>set pre. ?T e' \<noteq> [] \<longrightarrow> jsGt (?S e) (?S e')"
          "\<forall>e'\<in>set post. ?T e' \<noteq> [] \<longrightarrow> \<not> jsGt (?S e') (?S e)"
          by blast
        have "c # encs = (c # pre) @ e # post" using p(1) by simp
        moreover have "jsGt (?S e) (?S c)" using p(4) ngt by (rule jsGt_le_trans)
        then have "\<forall>e'\<in>set (c # pre). ?T e' \<noteq> [] \<longrightarrow> jsGt (?S e) (?S e')"
          using p(5) by simp
        moreover have "pickBest td buf (c # encs) best = (?S e, ?T e)" using p(2) step by simp
        ultimately have "?pick (c # encs) best" using p(3) p(4) p(6) by blast
        then show ?thesis ..
      qed
    qed
  qed
qed

lemma collapseWs_nonempty: "t \<noteq> [] \<Longrightarrow> collapseWs t \<noteq> []"
  by (cases t) auto

lemma scoreTextCandidate_formula:
  "t \<noteq> [] \<Longrightarrow> scoreTextCandidate t
     = Num (jsSub (jsSub (jsAdd (jsDiv (rat_of_nat (length (collapseWs t))) 50)
                             (jsMul (rat_of_nat (countMatches isCyrillic (collapseWs t)))
                                (binary64 (6 / 10))))
                      (jsMul (rat_of_nat (countMatches isMojibake (collapseWs t))) 4))
               (jsMul (rat_of_nat (countMatches isControl (collapseWs t))) 6))"
  using collapseWs_nonempty [of t]
  by (simp add: scoreTextCandidate_def Let_def del: collapseWs.simps)

lemma score_above_floor: "t \<noteq> [] \<Longrightarrow> jsGt (scoreTextCandidate t) NegInfinity"
  by (simp add: scoreTextCandidate_formula del: collapseWs.simps)

lemma bom_strict: "decodeUsing textDecoderAtBom bomOnly Utf8 True = []"
  by (simp add: decodeUsing_def textDecoderAtBom_def)

text \<open>The scores of the candidate texts of the byte order mark: two code units without
  a Cyrillic letter score \<^verbatim>\<open>0.04\<close>, three code units with one Cyrillic letter score
  \<^verbatim>\<open>0.06 + 0.6\<close>, which is the number \<^verbatim>\<open>0.6599999999999999\<close>.\<close>

lemma bom_scores:
  "scoreTextCandidate [0xBBEF, 0xFFFD] = Num (binary64 (4 / 100))"
  "scoreTextCandidate [0xEFBB, 0xFFFD] = Num (binary64 (4 / 100))"
  "scoreTextCandidate [0x43F, 0xBB, 0x457] = Num (2972375754064527 / 2 ^ 52)"
  "scoreTextCandidate [0x41E, 0x2569, 0xA9] = Num (2972375754064527 / 2 ^ 52)"
  "scoreTextCandidate [0x44F, 0x2557, 0x2510] = Num (2972375754064527 / 2 ^ 52)"
  by (simp_all add: scoreTextCandidate_def Let_def isSpace_def countMatches_def isCyrillic_def
      isMojibake_def isControl_def)
    (simp_all add: binary64_eval)

lemma bom_result: "decodeTextBuffer textDecoderAtBom (Some bomOnly) = [0x43F, 0xBB, 0x457]"
  by (simp add: decodeTextBuffer_def decodeUsing_def textDecoderAtBom_def candidates_def
      bom_scores Let_def)
    (simp add: binary64_eval)

text \<open>Two candidate texts whose scores are both \<open>499 / 25\<close> in exact arithmetic: the
  Windows-1251 reading scores \<^verbatim>\<open>1.36 + 18.599999999999998\<close>, which is the number
  \<^verbatim>\<open>19.959999999999997\<close>, the IBM866 reading scores \<^verbatim>\<open>0.76 + 19.2\<close>, which is the number
  \<^verbatim>\<open>19.96\<close>, and the later candidate is strictly better.\<close>

lemma near_tie_scores:
  "scoreTextCandidate windows1251Reading = Num (5618240535144693 / 2 ^ 48)"
  "scoreTextCandidate ibm866Reading = Num (5618240535144694 / 2 ^ 48)"
  "jsGt (scoreTextCandidate ibm866Reading) (scoreTextCandidate windows1251Reading)"
  by (simp_all add: scoreTextCandidate_def windows1251Reading_def ibm866Reading_def Let_def
      isSpace_def countMatches_def isCyrillic_def isMojibake_def isControl_def)
    (simp_all add: binary64_eval)

text \<open>
  Claim C5, as stated, fails. Strict UTF-8 decoding of a buffer that holds only a byte
  order mark succeeds with the empty string. The function tests the strict result for
  truthiness, takes the empty string for a failure and returns the best-scoring candidate
  instead, here the Windows-1251 reading of the three bytes.
\<close>

theorem decodeTextBuffer_bom_counterexample:
  "textDecoderAtBom Utf8 True bomOnly = Some []
   \<and> decodeTextBuffer textDecoderAtBom (Some bomOnly) = [0x43F, 0xBB, 0x457]"
  using bom_result by (simp add: textDecoderAtBom_def)

text \<open>
  Claim C5, amended. When strict UTF-8 decoding yields a non-empty text, that text is
  returned. Otherwise (strict decoding failed or yielded the empty string) the buffer is
  decoded under the candidate list UTF-8, UTF-16LE, UTF-16BE, Windows-1251, KOI8-R, IBM866;
  candidates that decode to the empty string are skipped; when none is left the result is
  empty, and else the result is the text of a candidate whose score is strictly above
  every earlier non-empty candidate's and not below any later one's. A non-empty text
  scores \<open>length/50 + cyrillic*0.6 - mojibake*4 - controls*6\<close> on its
  whitespace-collapsed form, computed from left to right in binary64 arithmetic; scores
  are compared as numbers.
\<close>

theorem decodeTextBuffer_selection:
  "(decodeUsing td buf Utf8 True \<noteq> []
      \<longrightarrow> decodeTextBuffer td (Some buf) = decodeUsing td buf Utf8 True)
   \<and> (decodeUsing td buf Utf8 True = []
      \<longrightarrow> ((\<forall>e\<in>set candidates. decodeUsing td buf e False = [])
            \<and> decodeTextBuffer td (Some buf) = [])
          \<or> (\<exists>pre e post. candidates = pre @ e # post
               \<and> decodeTextBuffer td (Some buf) = decodeUsing td buf e False
               \<and> decodeUsing td buf e False \<noteq> []
               \<and> (\<forall>e'\<in>set pre. decodeUsing td buf e' False \<noteq> []
                     \<longrightarrow> jsGt (scoreTextCandidate (decodeUsing td buf e False))
                              (scoreTextCandidate (decodeUsing td buf e' False)))
               \<and> (\<forall>e'\<in>set post. decodeUsing td buf e' False \<noteq> []
                     \<longrightarrow> \<not> jsGt (scoreTextCandidate (decodeUsing td buf e' False))
                                (scoreTextCandidate (decodeUsing td buf e False)))))
   \<and> candidates = [Utf8, Utf16le, Utf16be, Windows1251, Koi8r, Ibm866]
   \<and> (t \<noteq> [] \<longrightarrow> scoreTextCandidate t
         = Num (jsSub (jsSub (jsAdd (jsDiv (rat_of_nat (length (collapseWs t))) 50)
                                 (jsMul (rat_of_nat (countMatches isCyrillic (collapseWs t)))
                                    (binary64 (6 / 10))))
                          (jsMul (rat_of_nat (countMatches isMojibake (collapseWs t))) 4))
                   (jsMul (rat_of_nat (countMatches isControl (collapseWs t))) 6)))"
proof (intro conjI impI)
  assume "decodeUsing td buf Utf8 True \<noteq> []"
  then show "decodeTextBuffer td (Some buf) = decodeUsing td buf Utf8 True"
    by (simp add: decodeTextBuffer_def)
next
  assume s: "decodeUsing td buf Utf8 True = []"
  then have r: "decodeTextBuffer td (Some buf) = snd (pickBest td buf candidates (NegInfinity, []))"
    by (simp add: decodeTextBuffer_def)
  from pickBest_cases [of td buf candidates "(NegInfinity, [])"]
  show "((\<forall>e\<in>set candidates. decodeUsing td buf e False = [])
            \<and> decodeTextBuffer td (Some buf) = [])
          \<or> (\<exists>pre e post. candidates = pre @ e # post
               \<and> decodeTextBuffer td (Some buf) = decodeUsing td buf e False
               \<and> decodeUsing td buf e False \<noteq> []
               \<and> (\<forall>e'\<in>set pre. decodeUsing td buf e' False \<noteq> []
                     \<longrightarrow> jsGt (scoreTextCandidate (decodeUsing td buf e False))
                              (scoreTextCandidate (decodeUsing td buf e' False)))
               \<and> (\<forall>e'\<in>set post. decodeUsing td buf e' False \<noteq> []
                     \<longrightarrow> \<not> jsGt (scoreTextCandidate (decodeUsing td buf e' False))
                                (scoreTextCandidate (decodeUsing td buf e False))))"
  proof
    assume k: "pickBest td buf candidates (NegInfinity, []) = (NegInfinity, [])
      \<and> (\<forall>e\<in>set candidates. decodeUsing td buf e False \<noteq> []
            \<longrightarrow> \<not> jsGt (scoreTextCandidate (decodeUsing td buf e False)) (fst (NegInfinity, [])))"
    then have "\<forall>e\<in>set candidates. decodeUsing td buf e False = []"
      using score_above_floor by auto
    moreover have "decodeTextBuffer td (Some buf) = []" using k r by simp
    ultimately show ?thesis by blast
  next
    assume "\<exists>pre e post. candidates = pre @ e # post
        \<and> pickBest td buf candidates (NegInfinity, [])
            = (scoreTextCandidate (decodeUsing td buf e False), decodeUsing td buf e False)
        \<and> decodeUsing td buf e False \<noteq> []
        \<and> jsGt (scoreTextCandidate (decodeUsing td buf e False)) (fst (NegInfinity, []))
        \<and> (\<forall>e'\<in>set pre. decodeUsing td buf e' False \<noteq> []
              \<longrightarrow> jsGt (scoreTextCandidate (decodeUsing td buf e False))
                       (scoreTextCandidate (decodeUsing td buf e' False)))
        \<and> (\<forall>e'\<in>set post. decodeUsing td buf e' False \<noteq> []
              \<longrightarrow> \<not> jsGt (scoreTextCandidate (decodeUsing td buf e' False))
                         (scoreTextCandidate (decodeUsing td buf e False)))"
    then obtain pre e post where p: "candidates = pre @ e # post"
        "pickBest td buf candidates (NegInfinity, [])
            = (scoreTextCandidate (decodeUsing td buf e False), decodeUsing td buf e False)"
        "decodeUsing td buf e False \<noteq> []"
        "\<forall>e'\<in>set pre. decodeUsing td buf e' False \<noteq> []
              \<longrightarrow> jsGt (scoreTextCandidate (decodeUsing td buf e False))
                       (scoreTextCandidate (decodeUsing td buf e' False))"
        "\<forall>e'\<in>set post. decodeUsing td buf e' False \<noteq> []
              \<longrightarrow> \<not> jsGt (scoreTextCandidate (decodeUsing td buf e' False))
                         (scoreTextCandidate (decodeUsing td buf e False))"
      by blast
    have "decodeTextBuffer td (Some buf) = decodeUsing td buf e False" using p(2) r by simp
    then show ?thesis using p(1,3,4,5) by blast
  qed
next
  show "candidates = [Utf8, Utf16le, Utf16be, Windows1251, Koi8r, Ibm866]"
    by (simp add: candidates_def)
next
  assume "t \<noteq> []"
  then show "scoreTextCandidate t
         = Num (jsSub (jsSub (jsAdd (jsDiv (rat_of_nat (length (collapseWs t))) 50)
                                 (jsMul (rat_of_nat (countMatches isCyrillic (collapseWs t)))
                                    (binary64 (6 / 10))))
                          (jsMul (rat_of_nat (countMatches isMojibake (collapseWs t))) 4))
                   (jsMul (rat_of_nat (countMatches isControl (collapseWs t))) 6))"
    by (rule scoreTextCandidate_formula)
qed

theorem decodeTextBuffer_selection_witness:
  "decodeUsing textDecoderAtBom bomOnly Utf8 True = []
   \<and> \<not> (\<forall>e\<in>set candidates. decodeUsing textDecoderAtBom bomOnly e False = [])
   \<and> (\<exists>pre e post. candidates = pre @ e # post
         \<and> decodeTextBuffer textDecoderAtBom (Some bomOnly)
             = decodeUsing textDecoderAtBom bomOnly e False
         \<and> decodeUsing textDecoderAtBom bomOnly e False \<noteq> [])
   \<and> scoreTextCandidate [0x43F, 0xBB, 0x457] = Num (2972375754064527 / 2 ^ 52)"
proof -
  have ne: "\<not> (\<forall>e\<in>set candidates. decodeUsing textDecoderAtBom bomOnly e False = [])"
    by (simp add: candidates_def decodeUsing_def textDecoderAtBom_def)
  have "scoreTextCandidate [0x43F, 0xBB, 0x457]
        = Num (jsSub (jsSub (jsAdd (jsDiv 3 50) (jsMul 1 (binary64 (6 / 10)))) (jsMul 0 4))
                 (jsMul 0 6))"
    using decodeTextBuffer_selection [of textDecoderAtBom bomOnly "[0x43F, 0xBB, 0x457]"]
    by (simp add: isSpace_def countMatches_def isCyrillic_def isMojibake_def isControl_def)
  then have sc: "scoreTextCandidate [0x43F, 0xBB, 0x457] = Num (2972375754064527 / 2 ^ 52)"
    by (simp add: binary64_eval)
  show ?thesis
    using decodeTextBuffer_selection [of textDecoderAtBom bomOnly "[0x43F, 0xBB, 0x457]"]
      bom_strict ne sc by blast
qed

section \<open>Page-tagged text is the join of the pages\<close>














section \<open>The orchestrator on the patched sample document\<close>

lemma pdfFile_kind: "detectFileKind pdfFile [0x25, 0x50, 0x44, 0x46] = Pdf"
  by (simp add: detectFileKind_def pdfFile_def ascii_simps toLowerCase_def orEmpty_def startsWith_def)

lemma pageText_one: "pageTextOf [sampleBlock 0] = ascii ''cell''"
  by (simp add: pageTextOf_def sampleBlock_def ascii_simps trim_def isSpace_def)

lemma pageText_two: "pageTextOf [sampleBlock 0, sampleBlock 100] = ascii ''cell cell''"
  by (simp add: pageTextOf_def sampleBlock_def ascii_simps trim_def isSpace_def)

lemma patched_render: "renderPdfWithPdfjs patchedPdfWorld [] =
   (\<lparr>stext = ascii ''cell'' @ 10 # ascii ''cell cell'', spages = [ascii ''cell'', ascii ''cell cell''],
     slayout = Some 2\<rparr>, [\<lparr>step = ''pdfjs'', status = Info\<rparr>])"
  by (simp add: renderPdfWithPdfjs_def patchedPdfWorld_def pageText_one pageText_two pushTrace_def)
    (simp add: ascii_simps trim_def isSpace_def)

text \<open>The quality of the sample pages: four and nine Latin letters score \<^verbatim>\<open>0.001\<close> and
  \<^verbatim>\<open>0.002\<close>, five Cyrillic letters score \<^verbatim>\<open>0.601\<close>.\<close>

lemma quality_cell: "computeQuality (ascii ''cell'') = binary64 (1 / 1000)"
  by (simp add: computeQuality_def ascii_simps trim_def isSpace_def countMatches_def isCyrillic_def
      Let_def)
    (simp add: toFixed3_def binary64_eval)

lemma quality_cell_cell: "computeQuality (ascii ''cell cell'') = binary64 (2 / 1000)"
  by (simp add: computeQuality_def ascii_simps trim_def isSpace_def countMatches_def isCyrillic_def
      Let_def)
    (simp add: toFixed3_def binary64_eval)

lemma quality_cyrillic: "computeQuality cyrillicPage = binary64 (601 / 1000)"
  by (simp add: computeQuality_def cyrillicPage_def trim_def isSpace_def countMatches_def
      isCyrillic_def Let_def)
    (simp add: toFixed3_def binary64_eval)

lemma quality_threshold:
  "computeQuality (ascii ''cell'') < OCR_QUALITY_THRESHOLD"
  "computeQuality (ascii ''cell cell'') < OCR_QUALITY_THRESHOLD"
  "OCR_QUALITY_THRESHOLD \<le> computeQuality cyrillicPage"
  unfolding quality_cell quality_cell_cell quality_cyrillic OCR_QUALITY_THRESHOLD_def
  by (simp_all add: binary64_eval)


lemma normalised_samples: "trim (collapseWs (ascii ''cell'')) = ascii ''cell''"
  "trim (collapseWs (ascii ''cell cell'')) = ascii ''cell cell''"
  "trim (collapseWs (ascii ''scanned  text '')) = ascii ''scanned text''"
  "trim (collapseWs (ascii ''scanned text'')) = ascii ''scanned text''"
  by (simp_all add: ascii_simps trim_def isSpace_def)

lemma patched_meta: "buildPageMeta (ascii ''cell'' @ 10 # ascii ''cell cell'') [ascii ''cell'', ascii ''cell cell'']
     (Some 2)
   = \<lparr>pages = [ascii ''cell'', ascii ''cell cell''], pageCount = 2,
      pageTaggedText = ascii ''<<<PAGE 1>>>'' @ 10 # ascii ''cell''
                        @ 10 # 10 # ascii ''<<<PAGE 2>>>'' @ 10 # ascii ''cell cell'',
      layoutPageCount = 2, ocrPatchedPages = None\<rparr>"
  by (simp add: buildPageMeta_def normalizePageSegments_def normalised_samples Let_def buildPageTaggedText_def
      pageTag_def showNat.simps del: collapseWs.simps)
     (simp add: ascii_simps)

lemma patched_low_quality: "lowQualityPagesOf [ascii ''cell'', ascii ''cell cell''] = [1, 2]"
  by (simp add: lowQualityPagesOf_def quality_threshold)

lemma patched_ocr: "ocrPdfPages patchedPdfWorld [Suc 0, 2] tr
   = ([(Suc 0, ascii ''scanned text'')],
      tr @ [\<lparr>step = ''ocr-adaptive'', status = Warn\<rparr>, \<lparr>step = ''ocr-adaptive'', status = Info\<rparr>])"
  by (simp add: ocrPdfPages_def patchedPdfWorld_def Let_def recognizedText_def normalised_samples pushTrace_def
      del: collapseWs.simps)
     (simp add: ascii_simps)

lemma patched_apply: "applyPatches [(Suc 0, ascii ''scanned text'')] [ascii ''cell'', ascii ''cell cell''] []
   = ([ascii ''scanned text'', ascii ''cell cell''], [1])"
  by (simp add: normalised_samples setPage_def Let_def del: collapseWs.simps) (simp add: ascii_simps)

lemma patched_structural: "structuralStage patchedPdfWorld []
   = (ascii ''scanned text'' @ 10 # ascii ''cell cell'',
      \<lparr>pages = [ascii ''scanned text'', ascii ''cell cell''], pageCount = 2,
       pageTaggedText = ascii ''<<<PAGE 1>>>'' @ 10 # ascii ''scanned text''
                        @ 10 # 10 # ascii ''<<<PAGE 2>>>'' @ 10 # ascii ''cell cell'',
       layoutPageCount = 2, ocrPatchedPages = Some [1]\<rparr>,
      [\<lparr>step = ''pdfjs'', status = Info\<rparr>,
       \<lparr>step = ''ocr-adaptive'', status = Warn\<rparr>,
       \<lparr>step = ''ocr-adaptive'', status = Info\<rparr>,
       \<lparr>step = ''ocr-adaptive'', status = Info\<rparr>])"
  by (simp add: structuralStage_def patched_render patched_meta adaptivePatch_def patched_low_quality patched_ocr patched_apply Let_def pushTrace_def
      buildPageTaggedText_def pageTag_def showNat.simps del: collapseWs.simps)
     (simp add: ascii_simps trim_def isSpace_def setPage_def pageTag_def showNat.simps)

lemma patched_not_readable: "\<not> readable (evaluateSoftPdfAcceptance ()
     (Some (ascii ''scanned text'' @ 10 # ascii ''cell cell'')))"
  by (simp add: evaluateSoftPdfAcceptance_def orEmpty_def ascii_simps trim_def isSpace_def
      Let_def countMatches_def isCyrillic_def isDigit_def MIN_USEFUL_TEXT_LENGTH_def
      card_insert_if)
    (simp add: binary64_eval)

text \<open>The 22 code units of the patched text score \<^verbatim>\<open>0.005\<close>: \<^verbatim>\<open>22 / 4000\<close> is the number
  just below \<^verbatim>\<open>0.0055\<close>.\<close>

lemma patched_quality:
  "computeQuality (ascii ''scanned text'' @ 10 # ascii ''cell cell'') = binary64 (5 / 1000)"
  by (simp add: computeQuality_def ascii_simps trim_def isSpace_def countMatches_def isCyrillic_def
      Let_def)
    (simp add: toFixed3_def binary64_eval)

lemma patchedPdfWorld_result:
  "readFileContent patchedPdfWorld =
    Inr \<lparr>rtext = ascii ''scanned text'' @ 10 # ascii ''cell cell'',
         kind = Pdf, extractor = ascii ''pdfjs-soft'', usedOcr = False,
         quality = binary64 (5 / 1000),
         trace = [\<lparr>step = ''pdfjs'', status = Info\<rparr>,
                  \<lparr>step = ''ocr-adaptive'', status = Warn\<rparr>,
                  \<lparr>step = ''ocr-adaptive'', status = Info\<rparr>,
                  \<lparr>step = ''ocr-adaptive'', status = Info\<rparr>,
                  \<lparr>step = ''pdfjs'', status = Warn\<rparr>],
         meta = Some \<lparr>pages = [ascii ''scanned text'', ascii ''cell cell''], pageCount = 2,
                      pageTaggedText = ascii ''<<<PAGE 1>>>'' @ 10 # ascii ''scanned text''
                        @ 10 # 10 # ascii ''<<<PAGE 2>>>'' @ 10 # ascii ''cell cell'',
                      layoutPageCount = 2, ocrPatchedPages = Some [1]\<rparr>\<rparr>"
proof -
  have w: "inputFile patchedPdfWorld = Some pdfFile"
    "acquired patchedPdfWorld = Acquired [0x25, 0x50, 0x44, 0x46]"
    "\<not> base64Throws patchedPdfWorld"
    by (simp_all add: patchedPdfWorld_def)
  have x: "ascii ''pdfjs-soft'' \<noteq> ascii ''pdf-ocr''" by (simp add: ascii_simps)
  show ?thesis
    by (simp add: readFileContent_def w pdfFile_kind pdfPath_def patched_structural patched_not_readable patched_quality chooseText_def buildResponse_def
        pushTrace_def x del: collapseWs.simps)
qed



section \<open>Adaptive patch: what it may change\<close>















text \<open>A page of 478 Latin letters: \<^verbatim>\<open>478 / 4000\<close> is the number just below \<^verbatim>\<open>0.1195\<close>, the
  page scores \<^verbatim>\<open>0.119\<close> and lies below the threshold.\<close>

lemma quality_below_threshold:
  "computeQuality (replicate 478 97) = binary64 (119 / 1000)"
  "computeQuality (replicate 478 97) < OCR_QUALITY_THRESHOLD"
proof -
  have d: "dropWhile isSpace (replicate 478 97) = replicate 478 97"
    "dropWhile isSpace (rev (replicate 478 97)) = replicate 478 97"
    by (simp_all add: dropWhile_eq_self_iff not_space_a)
  have c: "trim (collapseWs (replicate 478 97)) = replicate 478 97"
    using d by (simp add: collapseWs_no_space not_space_a trim_def)
  have n: "filter isCyrillic (replicate 478 97) = []"
    by (simp add: isCyrillic_def)
  have q: "computeQuality (replicate 478 97)
           = toFixed3 (jsAdd (min 1 (jsDiv 478 4000)) (min (binary64 (6 / 10)) (jsDiv 0 478)))"
    by (simp add: computeQuality_def c countMatches_def n Let_def)
  show "computeQuality (replicate 478 97) = binary64 (119 / 1000)"
    unfolding q by (simp add: toFixed3_def binary64_eval)
  then show "computeQuality (replicate 478 97) < OCR_QUALITY_THRESHOLD"
    by (simp add: OCR_QUALITY_THRESHOLD_def binary64_eval)
qed



section \<open>The PDF path: which strategies run\<close>

lemma steps_pushTrace: "step ` set (pushTrace tr s st) = insert s (step ` set tr)"
  by (simp add: pushTrace_def)

lemma set_pushTrace: "set tr \<subseteq> set (pushTrace tr s st)"
  by (auto simp: pushTrace_def)

lemma renderPdfWithPdfjs_steps:
  "step ` set (snd (renderPdfWithPdfjs w tr)) = insert ''pdfjs'' (step ` set tr)"
  by (simp add: renderPdfWithPdfjs_def Let_def steps_pushTrace split: option.splits)

lemma ocrPagesLoop_steps:
  "step ` set (snd (ocrPagesLoop w n targets results tr)) \<subseteq> insert ''ocr-adaptive'' (step ` set tr)"
proof (induction targets arbitrary: results tr)
  case Nil
  then show ?case by auto
next
  case (Cons q targets)
  have a: "step ` set (snd (ocrPagesLoop w n targets r (pushTrace tr ''ocr-adaptive'' Warn)))
        \<subseteq> insert ''ocr-adaptive'' (step ` set tr)" for r
    using Cons.IH [of r "pushTrace tr ''ocr-adaptive'' Warn"] by (simp add: steps_pushTrace)
  show ?case using Cons.IH a by (simp split: pageOcr.splits)
qed

lemma ocrPdfPages_steps:
  "step ` set (snd (ocrPdfPages w ps tr)) \<subseteq> insert ''ocr-adaptive'' (step ` set tr)"
proof (cases "ocrNumPages w")
  case None
  then show ?thesis by (auto simp: ocrPdfPages_def Let_def steps_pushTrace)
next
  case (Some n)
  have "step ` set (snd (ocrPagesLoop w n targets [] tr)) \<subseteq> insert ''ocr-adaptive'' (step ` set tr)"
    for targets by (rule ocrPagesLoop_steps)
  then show ?thesis
    using Some by (auto simp: ocrPdfPages_def Let_def steps_pushTrace case_prod_beta)
qed

lemma adaptivePatch_steps:
  "step ` set (snd (snd (adaptivePatch w res m tr))) \<subseteq> insert ''ocr-adaptive'' (step ` set tr)"
  using ocrPdfPages_steps [of w "lowQualityPagesOf (pages m)" tr]
  by (auto simp: adaptivePatch_def Let_def case_prod_beta steps_pushTrace)

lemma structuralStage_steps:
  "step ` set (snd (snd (structuralStage w []))) \<subseteq> {''pdfjs'', ''ocr-adaptive''}"
proof -
  let ?r = "renderPdfWithPdfjs w []"
  have "step ` set (snd (snd (adaptivePatch w (fst ?r)
            (buildPageMeta (stext (fst ?r)) (spages (fst ?r)) (slayout (fst ?r))) (snd ?r))))
        \<subseteq> insert ''ocr-adaptive'' (step ` set (snd ?r))"
    by (rule adaptivePatch_steps)
  then show ?thesis
    by (simp add: structuralStage_def Let_def case_prod_beta renderPdfWithPdfjs_steps) blast
qed

lemma serverExtractText_trace:
  "''server'' \<in> step ` set (snd (serverExtractText w tr))"
  by (simp add: serverExtractText_def steps_pushTrace split: serverOutcome.splits)

lemma ocrPdfLoop_keeps: "set tr \<subseteq> set (snd (ocrPdfLoop w ps texts tr))"
proof (induction ps arbitrary: texts tr)
  case Nil
  then show ?case by simp
next
  case (Cons p ps)
  have "set tr \<subseteq> set (snd (ocrPdfLoop w ps t (pushTrace tr ''ocr'' Warn)))" for t
    using Cons.IH [of "pushTrace tr ''ocr'' Warn" t] set_pushTrace [of tr "''ocr''" Warn] by blast
  then show ?case using Cons.IH by (simp split: pageOcr.splits)
qed

lemma ocrPdf_trace:
  "set tr \<subseteq> set (snd (ocrPdf w tr n)) \<and> ''ocr'' \<in> step ` set (snd (ocrPdf w tr n))"
proof (cases "ocrNumPages w")
  case None
  then show ?thesis by (auto simp: ocrPdf_def pushTrace_def)
next
  case (Some k)
  obtain r t where l: "ocrPdfLoop w [1 ..< Suc (min n k)] [] tr = (r, t)"
    by (cases "ocrPdfLoop w [1 ..< Suc (min n k)] [] tr")
  have "set tr \<subseteq> set t" using ocrPdfLoop_keeps [of tr w "[1 ..< Suc (min n k)]" "[]"] l by simp
  then show ?thesis
    using Some l by (cases r) (auto simp: ocrPdf_def pushTrace_def Let_def)
qed

lemma readFileContent_pdf:
  "inputFile w = Some f \<Longrightarrow> acquired w = Acquired buf \<Longrightarrow> \<not> base64Throws w
   \<Longrightarrow> detectFileKind f buf = Pdf \<Longrightarrow> readFileContent w = pdfPath w Pdf []"
  by (simp add: readFileContent_def)

lemma serverFallback_failed:
  "serverExtractText w tr = (serverResult, t1) \<Longrightarrow> serverFailedOrShort serverResult
   \<Longrightarrow> serverFallback w k tr = Inr (ocrFallback w k t1)"
  by (auto simp: serverFallback_def serverFailedOrShort_def split: option.splits jsfield.splits)

lemma ocrFallback_result:
  assumes "ocrPdf w t1 10 = (ocr, t2)"
  shows "trace (ocrFallback w k t1) = t2 \<or> trace (ocrFallback w k t1) = pushTrace t2 ''pdf'' Warn"
    and "\<not> (stext ocr \<noteq> [] \<and> 40 \<le> length (trim (stext ocr)))
      \<Longrightarrow> ocrFallback w k t1 = chooseText (pushTrace t2 ''pdf'' Warn) k [] (ascii ''pdf-unreadable'') None"
  using assms by (auto simp: ocrFallback_def Let_def buildResponse_def chooseText_def)

lemma scanned_structural:
  "structuralStage scannedPdfWorld []
   = ([], \<lparr>pages = [], pageCount = 1, pageTaggedText = [], layoutPageCount = 1,
           ocrPatchedPages = None\<rparr>, [\<lparr>step = ''pdfjs'', status = Info\<rparr>])"
  by (simp add: structuralStage_def renderPdfWithPdfjs_def scannedPdfWorld_def pageTextOf_def
      trim_def buildPageMeta_def normalizePageSegments_def buildPageTaggedText_def
      adaptivePatch_def lowQualityPagesOf_def pushTrace_def Let_def)

lemma scanned_server:
  "serverExtractText scannedPdfWorld tr = (None, tr @ [\<lparr>step = ''server'', status = Warn\<rparr>])"
  by (simp add: serverExtractText_def scannedPdfWorld_def pushTrace_def)

lemma scanned_ocr:
  "ocrPdf scannedPdfWorld tr 10 = (emptyStage, tr @ [\<lparr>step = ''ocr'', status = Warn\<rparr>])"
  by (simp add: ocrPdf_def scannedPdfWorld_def pushTrace_def)

lemma scanned_input:
  "inputFile scannedPdfWorld = Some pdfFile"
  "acquired scannedPdfWorld = Acquired [0x25, 0x50, 0x44, 0x46]"
  "\<not> base64Throws scannedPdfWorld"
  by (simp_all add: scannedPdfWorld_def)

text \<open>
  Claim C1, as stated, fails. The structural text of the sample document is short and does
  not satisfy the acceptance predicate, yet it is returned with the extractor tag
  \<^verbatim>\<open>pdfjs-soft\<close> and a warning; the trace has no entry of the remote service or of full OCR.
\<close>

theorem pdf_soft_accept_counterexample:
  "\<not> readable (evaluateSoftPdfAcceptance ()
        (Some (ascii ''scanned text'' @ [10] @ ascii ''cell cell'')))
   \<and> readFileContent patchedPdfWorld =
    Inr \<lparr>rtext = ascii ''scanned text'' @ [10] @ ascii ''cell cell'',
         kind = Pdf, extractor = ascii ''pdfjs-soft'', usedOcr = False,
         quality = binary64 (5 / 1000),
         trace = [\<lparr>step = ''pdfjs'', status = Info\<rparr>,
                  \<lparr>step = ''ocr-adaptive'', status = Warn\<rparr>,
                  \<lparr>step = ''ocr-adaptive'', status = Info\<rparr>,
                  \<lparr>step = ''ocr-adaptive'', status = Info\<rparr>,
                  \<lparr>step = ''pdfjs'', status = Warn\<rparr>],
         meta = Some \<lparr>pages = [ascii ''scanned text'', ascii ''cell cell''], pageCount = 2,
                      pageTaggedText = ascii ''<<<PAGE 1>>>'' @ [10] @ ascii ''scanned text''
                        @ [10, 10] @ ascii ''<<<PAGE 2>>>'' @ [10] @ ascii ''cell cell'',
                      layoutPageCount = 2, ocrPatchedPages = Some [1]\<rparr>\<rparr>"
  using patched_not_readable patchedPdfWorld_result by simp

text \<open>
  Claim C1, amended. For a PDF input: when the structural text (after the adaptive patch,
  trimmed) is not empty, it is returned, tagged \<^verbatim>\<open>pdfjs\<close> if it satisfies the acceptance
  predicate and \<^verbatim>\<open>pdfjs-soft\<close> otherwise; in the second case the trace of the structural
  stage is extended by one entry of stage \<^verbatim>\<open>pdfjs\<close> with status \<^verbatim>\<open>warn\<close>, in the first it is
  returned as it is; neither the remote service nor full OCR runs. When it is empty, the remote service is tried. When the service fails, answers
  without text or with fewer than 40 characters after trimming, full-document OCR runs;
  and when OCR yields no text or fewer than 40 characters after trimming, the result has
  empty text, no page metadata, the extractor tag \<^verbatim>\<open>pdf-unreadable\<close> and a final trace
  entry of stage \<^verbatim>\<open>pdf\<close> with status \<^verbatim>\<open>warn\<close>.
\<close>

theorem pdf_fallback_chain:
  assumes "inputFile w = Some f" "acquired w = Acquired buf" "\<not> base64Throws w"
    and "detectFileKind f buf = Pdf"
    and "structuralStage w [] = (t, m, tr)"
    and "serverExtractText w tr = (serverResult, t1)"
    and "ocrPdf w t1 10 = (ocr, t2)"
  shows "(t \<noteq> [] \<longrightarrow>
           (\<exists>r. readFileContent w = Inr r \<and> rtext r = t
              \<and> extractor r = (if readable (evaluateSoftPdfAcceptance () (Some t))
                                then ascii ''pdfjs'' else ascii ''pdfjs-soft'')
              \<and> meta r = Some m
              \<and> trace r = (if readable (evaluateSoftPdfAcceptance () (Some t)) then tr
                           else tr @ [\<lparr>step = ''pdfjs'', status = Warn\<rparr>])
              \<and> ''server'' \<notin> step ` set (trace r) \<and> ''ocr'' \<notin> step ` set (trace r)))
    \<and> (t = [] \<longrightarrow> readFileContent w = serverFallback w Pdf tr \<and> ''server'' \<in> step ` set t1)
    \<and> (t = [] \<and> serverFailedOrShort serverResult \<longrightarrow>
           (\<exists>r. readFileContent w = Inr r
              \<and> ''server'' \<in> step ` set (trace r) \<and> ''ocr'' \<in> step ` set (trace r)
              \<and> (\<not> (stext ocr \<noteq> [] \<and> 40 \<le> length (trim (stext ocr)))
                   \<longrightarrow> rtext r = [] \<and> extractor r = ascii ''pdf-unreadable'' \<and> meta r = None
                       \<and> last (trace r) = \<lparr>step = ''pdf'', status = Warn\<rparr>)))"
proof (intro conjI impI)
  have rf: "readFileContent w = pdfPath w Pdf []"
    using assms(1-4) by (rule readFileContent_pdf)
  have st: "step ` set tr \<subseteq> {''pdfjs'', ''ocr-adaptive''}"
    using structuralStage_steps [of w] assms(5) by simp
  have sv: "''server'' \<in> step ` set t1"
    using serverExtractText_trace [of w tr] assms(6) by simp
  {
    assume ne: "t \<noteq> []"
    let ?rd = "readable (evaluateSoftPdfAcceptance () (Some t))"
    let ?r = "chooseText (if \<not> ?rd then pushTrace tr ''pdfjs'' Warn else tr) Pdf t
                (if ?rd then ascii ''pdfjs'' else ascii ''pdfjs-soft'') (Some m)"
    have r: "readFileContent w = Inr ?r"
      using ne assms(5) by (simp add: rf pdfPath_def Let_def)
    have sub: "step ` set (trace ?r) \<subseteq> {''pdfjs'', ''ocr-adaptive''}"
      using st by (auto simp: chooseText_def buildResponse_def steps_pushTrace)
    have out: "''server'' \<notin> {''pdfjs'', ''ocr-adaptive''}" "''ocr'' \<notin> {''pdfjs'', ''ocr-adaptive''}"
      by simp_all
    have "''server'' \<notin> step ` set (trace ?r)" "''ocr'' \<notin> step ` set (trace ?r)"
      using sub out by (meson subsetD)+
    moreover have "rtext ?r = t" "meta ?r = Some m"
      "extractor ?r = (if ?rd then ascii ''pdfjs'' else ascii ''pdfjs-soft'')"
      "trace ?r = (if ?rd then tr else tr @ [\<lparr>step = ''pdfjs'', status = Warn\<rparr>])"
      by (simp_all add: chooseText_def buildResponse_def pushTrace_def)
    ultimately show "\<exists>r. readFileContent w = Inr r \<and> rtext r = t
              \<and> extractor r = (if readable (evaluateSoftPdfAcceptance () (Some t))
                                then ascii ''pdfjs'' else ascii ''pdfjs-soft'')
              \<and> meta r = Some m
              \<and> trace r = (if readable (evaluateSoftPdfAcceptance () (Some t)) then tr
                           else tr @ [\<lparr>step = ''pdfjs'', status = Warn\<rparr>])
              \<and> ''server'' \<notin> step ` set (trace r) \<and> ''ocr'' \<notin> step ` set (trace r)"
      using r by blast
  }
  {
    assume e: "t = []"
    show "readFileContent w = serverFallback w Pdf tr"
      using e assms(5) by (simp add: rf pdfPath_def Let_def)
    show "''server'' \<in> step ` set t1" by (rule sv)
  }
  {
    assume "t = [] \<and> serverFailedOrShort serverResult"
    then have e: "t = []" and f: "serverFailedOrShort serverResult" by simp_all
    let ?r = "ocrFallback w Pdf t1"
    have r: "readFileContent w = Inr ?r"
      using e assms(5) serverFallback_failed [OF assms(6) f] by (simp add: rf pdfPath_def Let_def)
    have k: "set t1 \<subseteq> set t2" "''ocr'' \<in> step ` set t2"
      using ocrPdf_trace [of t1 w 10] assms(7) by simp_all
    have tr2: "set t2 \<subseteq> set (trace ?r)"
      using ocrFallback_result(1) [OF assms(7), of Pdf] set_pushTrace [of t2 "''pdf''" Warn] by auto
    have s1: "''server'' \<in> step ` set (trace ?r)" using sv k(1) tr2 by blast
    have s2: "''ocr'' \<in> step ` set (trace ?r)" using k(2) tr2 by blast
    have u: "\<not> (stext ocr \<noteq> [] \<and> 40 \<le> length (trim (stext ocr)))
              \<longrightarrow> rtext ?r = [] \<and> extractor ?r = ascii ''pdf-unreadable'' \<and> meta ?r = None
                  \<and> last (trace ?r) = \<lparr>step = ''pdf'', status = Warn\<rparr>"
    proof
      assume "\<not> (stext ocr \<noteq> [] \<and> 40 \<le> length (trim (stext ocr)))"
      then have "?r = chooseText (pushTrace t2 ''pdf'' Warn) Pdf [] (ascii ''pdf-unreadable'') None"
        by (rule ocrFallback_result(2) [OF assms(7)])
      then show "rtext ?r = [] \<and> extractor ?r = ascii ''pdf-unreadable'' \<and> meta ?r = None
                  \<and> last (trace ?r) = \<lparr>step = ''pdf'', status = Warn\<rparr>"
        by (simp add: chooseText_def buildResponse_def pushTrace_def)
    qed
    show "\<exists>r. readFileContent w = Inr r
              \<and> ''server'' \<in> step ` set (trace r) \<and> ''ocr'' \<in> step ` set (trace r)
              \<and> (\<not> (stext ocr \<noteq> [] \<and> 40 \<le> length (trim (stext ocr)))
                   \<longrightarrow> rtext r = [] \<and> extractor r = ascii ''pdf-unreadable'' \<and> meta r = None
                       \<and> last (trace r) = \<lparr>step = ''pdf'', status = Warn\<rparr>)"
      using r s1 s2 u by blast
  }
qed

theorem pdf_fallback_chain_witness:
  "inputFile scannedPdfWorld = Some pdfFile
   \<and> acquired scannedPdfWorld = Acquired [0x25, 0x50, 0x44, 0x46]
   \<and> \<not> base64Throws scannedPdfWorld
   \<and> detectFileKind pdfFile [0x25, 0x50, 0x44, 0x46] = Pdf
   \<and> fst (structuralStage scannedPdfWorld []) = []
   \<and> serverFailedOrShort None
   \<and> (\<exists>r. readFileContent scannedPdfWorld = Inr r
         \<and> ''server'' \<in> step ` set (trace r) \<and> ''ocr'' \<in> step ` set (trace r)
         \<and> rtext r = [] \<and> extractor r = ascii ''pdf-unreadable'' \<and> meta r = None
         \<and> last (trace r) = \<lparr>step = ''pdf'', status = Warn\<rparr>)
   \<and> inputFile patchedPdfWorld = Some pdfFile
   \<and> acquired patchedPdfWorld = Acquired [0x25, 0x50, 0x44, 0x46]
   \<and> \<not> base64Throws patchedPdfWorld
   \<and> fst (structuralStage patchedPdfWorld []) = ascii ''scanned text'' @ [10] @ ascii ''cell cell''
   \<and> \<not> readable (evaluateSoftPdfAcceptance ()
            (Some (ascii ''scanned text'' @ [10] @ ascii ''cell cell'')))
   \<and> (\<exists>r. readFileContent patchedPdfWorld = Inr r
         \<and> rtext r = ascii ''scanned text'' @ [10] @ ascii ''cell cell''
         \<and> extractor r = ascii ''pdfjs-soft''
         \<and> trace r = snd (snd (structuralStage patchedPdfWorld []))
                      @ [\<lparr>step = ''pdfjs'', status = Warn\<rparr>]
         \<and> ''server'' \<notin> step ` set (trace r) \<and> ''ocr'' \<notin> step ` set (trace r))"
proof -
  have f: "serverFailedOrShort None" by (simp add: serverFailedOrShort_def)
  have s: "\<not> (stext emptyStage \<noteq> [] \<and> 40 \<le> length (trim (stext emptyStage)))"
    by (simp add: emptyStage_def)
  have a: "\<exists>r. readFileContent scannedPdfWorld = Inr r
         \<and> ''server'' \<in> step ` set (trace r) \<and> ''ocr'' \<in> step ` set (trace r)
         \<and> rtext r = [] \<and> extractor r = ascii ''pdf-unreadable'' \<and> meta r = None
         \<and> last (trace r) = \<lparr>step = ''pdf'', status = Warn\<rparr>"
    using pdf_fallback_chain [OF scanned_input pdfFile_kind scanned_structural scanned_server
        scanned_ocr] f s
    by blast
  have pw: "inputFile patchedPdfWorld = Some pdfFile"
    "acquired patchedPdfWorld = Acquired [0x25, 0x50, 0x44, 0x46]"
    "\<not> base64Throws patchedPdfWorld"
    by (simp_all add: patchedPdfWorld_def)
  let ?t = "ascii ''scanned text'' @ 10 # ascii ''cell cell''"
  let ?tr = "[\<lparr>step = ''pdfjs'', status = Info\<rparr>,
       \<lparr>step = ''ocr-adaptive'', status = Warn\<rparr>,
       \<lparr>step = ''ocr-adaptive'', status = Info\<rparr>,
       \<lparr>step = ''ocr-adaptive'', status = Info\<rparr>]"
  obtain sr t1 where sx: "serverExtractText patchedPdfWorld ?tr = (sr, t1)"
    by (cases "serverExtractText patchedPdfWorld ?tr")
  obtain ocr t2 where ox: "ocrPdf patchedPdfWorld t1 10 = (ocr, t2)"
    by (cases "ocrPdf patchedPdfWorld t1 10")
  have ne: "?t \<noteq> []" by simp
  have b: "\<exists>r. readFileContent patchedPdfWorld = Inr r \<and> rtext r = ?t
         \<and> extractor r = ascii ''pdfjs-soft''
         \<and> trace r = ?tr @ [\<lparr>step = ''pdfjs'', status = Warn\<rparr>]
         \<and> ''server'' \<notin> step ` set (trace r) \<and> ''ocr'' \<notin> step ` set (trace r)"
    using pdf_fallback_chain [OF pw pdfFile_kind patched_structural sx ox, THEN conjunct1] ne
      patched_not_readable
    by auto
  show ?thesis
    using scanned_input pdfFile_kind scanned_structural f a pw patched_structural
      patched_not_readable b
    by simp
qed

section \<open>The OCR flag of a result\<close>

lemma tag_distinct:
  "ascii ''pdfjs'' \<noteq> ascii ''pdf-ocr''" "ascii ''pdfjs-soft'' \<noteq> ascii ''pdf-ocr''"
  "ascii ''docx'' \<noteq> ascii ''pdf-ocr''" "ascii ''text'' \<noteq> ascii ''pdf-ocr''"
  "ascii ''pdf-unreadable'' \<noteq> ascii ''pdf-ocr''" "ascii ''image-preview'' \<noteq> ascii ''pdf-ocr''"
  "ascii ''image-ocr'' \<noteq> ascii ''pdf-ocr''" "ascii ''binary'' \<noteq> ascii ''pdf-ocr''"
  "ascii ''none'' \<noteq> ascii ''pdf-ocr''" "ascii ''image-preview'' \<noteq> ascii ''image-ocr''"
  "ascii ''pdfjs'' \<noteq> ascii ''image-ocr''" "ascii ''pdfjs-soft'' \<noteq> ascii ''image-ocr''"
  "ascii ''docx'' \<noteq> ascii ''image-ocr''" "ascii ''text'' \<noteq> ascii ''image-ocr''"
  "ascii ''pdf-unreadable'' \<noteq> ascii ''image-ocr''" "ascii ''binary'' \<noteq> ascii ''image-ocr''"
  "ascii ''none'' \<noteq> ascii ''image-ocr''" "ascii ''pdf-ocr'' \<noteq> ascii ''image-ocr''"
  by (simp_all add: ascii_simps)

lemma buildPageMeta_unpatched: "ocrPatchedPages (buildPageMeta t ps l) = None"
  by (simp add: buildPageMeta_def Let_def)

lemma ocrFallback_flag:
  "kind (ocrFallback w k tr) = k
   \<and> (usedOcr (ocrFallback w k tr) \<longleftrightarrow> extractor (ocrFallback w k tr) = ascii ''pdf-ocr'')
   \<and> (\<forall>m. meta (ocrFallback w k tr) = Some m \<longrightarrow> ocrPatchedPages m = None)"
  by (auto simp: ocrFallback_def Let_def buildResponse_def chooseText_def tag_distinct
      buildPageMeta_unpatched split: prod.splits)

lemma serverFallback_flag:
  "serverFallback w k tr = Inr r
   \<Longrightarrow> kind r = k \<and> (usedOcr r \<longleftrightarrow> extractor r = ascii ''pdf-ocr'')
       \<and> (\<forall>m. meta r = Some m \<longrightarrow> ocrPatchedPages m = None)"
  using ocrFallback_flag [of w k]
  by (auto simp: serverFallback_def Let_def buildResponse_def chooseText_def
      buildPageMeta_unpatched split: prod.splits option.splits jsfield.splits if_splits)

lemma pdfPath_flag:
  "pdfPath w k tr = Inr r
   \<Longrightarrow> kind r = k \<and> (usedOcr r \<longleftrightarrow> extractor r = ascii ''pdf-ocr'')
       \<and> (\<forall>m ps. meta r = Some m \<and> ocrPatchedPages m = Some ps
             \<longrightarrow> \<not> usedOcr r
                 \<and> (extractor r = ascii ''pdfjs'' \<or> extractor r = ascii ''pdfjs-soft''))"
proof -
  assume h: "pdfPath w k tr = Inr r"
  obtain t m t' where s: "structuralStage w tr = (t, m, t')"
    by (cases "structuralStage w tr") auto
  show ?thesis
  proof (cases "t = []")
    case True
    then have "serverFallback w k t' = Inr r" using h s by (simp add: pdfPath_def)
    then show ?thesis using serverFallback_flag [of w k t' r] by auto
  next
    case False
    then show ?thesis using h s
      by (auto simp: pdfPath_def Let_def chooseText_def buildResponse_def tag_distinct
          split: if_splits)
  qed
qed

lemma imagePath_flag:
  "imagePath w tr = Inr r
   \<Longrightarrow> kind r = Image \<and> (usedOcr r \<longleftrightarrow> extractor r = ascii ''image-ocr'')
       \<and> extractor r \<noteq> ascii ''pdf-ocr''
       \<and> (\<forall>m. meta r = Some m \<longrightarrow> ocrPatchedPages m = None)"
  by (auto simp: imagePath_def Let_def buildResponse_def tag_distinct buildPageMeta_unpatched
      split: if_splits option.splits)

lemma trim_letters: "trim (replicate 40 97) = replicate 40 97"
proof -
  have "dropWhile isSpace (replicate 40 97) = replicate 40 97"
    by (simp add: dropWhile_eq_self_iff not_space_a)
  moreover have "dropWhile isSpace (rev (replicate 40 97)) = replicate 40 97"
    by (simp add: dropWhile_eq_self_iff not_space_a)
  ultimately show ?thesis by (simp add: trim_def)
qed

lemma serverImageOcr_structural:
  "structuralStage serverImageOcrWorld []
   = ([], \<lparr>pages = [], pageCount = 1, pageTaggedText = [], layoutPageCount = 1,
           ocrPatchedPages = None\<rparr>, [\<lparr>step = ''pdfjs'', status = Info\<rparr>])"
  by (simp add: structuralStage_def renderPdfWithPdfjs_def serverImageOcrWorld_def
      scannedPdfWorld_def pageTextOf_def
      trim_def buildPageMeta_def normalizePageSegments_def buildPageTaggedText_def
      adaptivePatch_def lowQualityPagesOf_def pushTrace_def Let_def)

text \<open>
  Claim C10, as stated, fails. The extractor tag of a remote result is whatever the remote
  service names, and \<open>chooseText\<close> sets the flag by comparing the tag with \<^verbatim>\<open>pdf-ocr\<close> only.
  When the service names its extractor \<^verbatim>\<open>image-ocr\<close>, the result carries that tag and the
  flag is false.
\<close>

theorem usedOcr_server_tag_counterexample:
  "readFileContent serverImageOcrWorld =
    Inr \<lparr>rtext = replicate 40 97, kind = Pdf, extractor = ascii ''image-ocr'', usedOcr = False,
         quality = computeQuality (replicate 40 97),
         trace = [\<lparr>step = ''pdfjs'', status = Info\<rparr>, \<lparr>step = ''server'', status = Info\<rparr>],
         meta = Some (buildPageMeta (replicate 40 97) [replicate 40 97] (Some 1))\<rparr>"
proof -
  have i: "inputFile serverImageOcrWorld = Some pdfFile"
    "acquired serverImageOcrWorld = Acquired [0x25, 0x50, 0x44, 0x46]"
    "\<not> base64Throws serverImageOcrWorld"
    by (simp_all add: serverImageOcrWorld_def scannedPdfWorld_def)
  have s: "server serverImageOcrWorld = Payload \<lparr>ptext = StringValue (replicate 40 97),
      pmetaPages = None, pextractor = ascii ''image-ocr''\<rparr>"
    by (simp add: serverImageOcrWorld_def)
  have x: "ascii ''image-ocr'' \<noteq> []" by (simp add: ascii_simps)
  have f: "serverFallback serverImageOcrWorld Pdf [\<lparr>step = ''pdfjs'', status = Info\<rparr>] =
    Inr \<lparr>rtext = replicate 40 97, kind = Pdf, extractor = ascii ''image-ocr'', usedOcr = False,
         quality = computeQuality (replicate 40 97),
         trace = [\<lparr>step = ''pdfjs'', status = Info\<rparr>, \<lparr>step = ''server'', status = Info\<rparr>],
         meta = Some (buildPageMeta (replicate 40 97) [replicate 40 97] (Some 1))\<rparr>"
    by (simp add: serverFallback_def serverExtractText_def s pushTrace_def trim_letters Let_def
        orEmpty_def chooseText_def buildResponse_def buildPlainLayout_def x tag_distinct)
  show ?thesis
    by (simp add: readFileContent_def i pdfFile_kind pdfPath_def serverImageOcr_structural f)
qed

text \<open>
  Claim C10, amended. In every result of \<open>readFileContent\<close> the flag \<open>usedOcr\<close> is true
  exactly when the extractor tag is \<^verbatim>\<open>pdf-ocr\<close>, or the result is an image result with the
  tag \<^verbatim>\<open>image-ocr\<close>. A result that records patched pages is a structural result (tag
  \<^verbatim>\<open>pdfjs\<close> or \<^verbatim>\<open>pdfjs-soft\<close>) and its flag is false.
\<close>

theorem usedOcr_flag:
  assumes "readFileContent w = Inr r"
  shows "(usedOcr r \<longleftrightarrow> extractor r = ascii ''pdf-ocr''
                      \<or> (extractor r = ascii ''image-ocr'' \<and> kind r = Image))
    \<and> (\<forall>m ps. meta r = Some m \<and> ocrPatchedPages m = Some ps
          \<longrightarrow> \<not> usedOcr r
              \<and> (extractor r = ascii ''pdfjs'' \<or> extractor r = ascii ''pdfjs-soft''))"
proof (cases "inputFile w")
  case None
  then show ?thesis using assms
    by (auto simp: readFileContent_def buildResponse_def tag_distinct)
next
  case (Some f)
  show ?thesis
  proof (cases "acquired w")
    case AcquireThrows
    then show ?thesis using assms Some by (simp add: readFileContent_def)
  next
    case AcquireNull
    then show ?thesis using assms Some by (simp add: readFileContent_def)
  next
    case (Acquired buf)
    show ?thesis
    proof (cases "base64Throws w")
      case True
      then show ?thesis using assms Some Acquired by (simp add: readFileContent_def)
    next
      case False
      consider (isDocx) "detectFileKind f buf = Docx" | (isText) "detectFileKind f buf = TextKind"
        | (isPdf) "detectFileKind f buf = Pdf" | (isImage) "detectFileKind f buf = Image"
        | (other) "detectFileKind f buf \<noteq> Docx" "detectFileKind f buf \<noteq> TextKind"
            "detectFileKind f buf \<noteq> Pdf" "detectFileKind f buf \<noteq> Image"
        by blast
      then show ?thesis
      proof cases
        case isDocx
        then show ?thesis using assms Some Acquired False
          by (auto simp: readFileContent_def Let_def chooseText_def buildResponse_def tag_distinct
              buildPageMeta_unpatched split: prod.splits)
      next
        case isText
        then show ?thesis using assms Some Acquired False
          by (auto simp: readFileContent_def Let_def chooseText_def buildResponse_def tag_distinct
              buildPageMeta_unpatched)
      next
        case isPdf
        then have "pdfPath w Pdf [] = Inr r" using assms Some Acquired False
          by (simp add: readFileContent_def)
        then show ?thesis using pdfPath_flag [of w Pdf "[]" r] by auto
      next
        case isImage
        then have "imagePath w [] = Inr r" using assms Some Acquired False
          by (simp add: readFileContent_def)
        then show ?thesis using imagePath_flag [of w "[]" r] by auto
      next
        case other
        then show ?thesis using assms Some Acquired False
          by (auto simp: readFileContent_def Let_def buildResponse_def tag_distinct)
      qed
    qed
  qed
qed

theorem usedOcr_flag_witness:
  "\<exists>r m. readFileContent patchedPdfWorld = Inr r \<and> meta r = Some m
     \<and> ocrPatchedPages m = Some [1] \<and> \<not> usedOcr r \<and> extractor r = ascii ''pdfjs-soft''"
proof -
  obtain r where r: "readFileContent patchedPdfWorld = Inr r"
    using patchedPdfWorld_result by blast
  then obtain m where m: "meta r = Some m" "ocrPatchedPages m = Some [1]"
    and e: "extractor r = ascii ''pdfjs-soft''"
    using patchedPdfWorld_result by auto
  have "\<not> usedOcr r" using usedOcr_flag [OF r] m by blast
  then show ?thesis using r m e by blast
qed

section \<open>Failures: what stays inside a stage and what escapes\<close>

lemma imageFile_kind: "detectFileKind imageFile [0x89, 0x50, 0x4E, 0x47] = Image"
  by (simp add: detectFileKind_def imageFile_def ascii_simps toLowerCase_def orEmpty_def
      startsWith_def endsWith_def byteAt_def)

lemma malformed_structural:
  "structuralStage malformedServerWorld []
   = ([], \<lparr>pages = [], pageCount = 1, pageTaggedText = [], layoutPageCount = 1,
           ocrPatchedPages = None\<rparr>, [\<lparr>step = ''pdfjs'', status = Info\<rparr>])"
  by (simp add: structuralStage_def renderPdfWithPdfjs_def malformedServerWorld_def
      scannedPdfWorld_def pageTextOf_def
      trim_def buildPageMeta_def normalizePageSegments_def buildPageTaggedText_def
      adaptivePatch_def lowQualityPagesOf_def pushTrace_def Let_def)

text \<open>Every stage body sits in its own \<^verbatim>\<open>try\<close>: when the library, the document, the
  archive, the request or the OCR engine fails, the stage returns its empty result and
  appends one trace entry that is not \<^verbatim>\<open>info\<close>.\<close>

lemma stages_contain_failures:
  "(\<not> pdfjsLib w \<or> pdfjsDoc w = None
      \<longrightarrow> renderPdfWithPdfjs w tr = (emptyStage, tr @ [\<lparr>step = ''pdfjs'', status = Error\<rparr>]))
   \<and> (docx w = DocxThrows
      \<longrightarrow> extractDocx w tr = (emptyStage, tr @ [\<lparr>step = ''docx'', status = Error\<rparr>]))
   \<and> (docx w = DocxNoDocument
      \<longrightarrow> extractDocx w tr = (emptyStage, tr @ [\<lparr>step = ''docx'', status = Warn\<rparr>]))
   \<and> (server w \<in> {FetchUnavailable, NotConfigured, RequestThrows} \<or> (\<exists>c. server w = HttpError c)
      \<longrightarrow> fst (serverExtractText w tr) = None
          \<and> (\<exists>st. st \<noteq> Info \<and> snd (serverExtractText w tr) = tr @ [\<lparr>step = ''server'', status = st\<rparr>]))
   \<and> (\<not> pdfjsLib w \<or> \<not> tesseract w \<or> ocrNumPages w = None
      \<longrightarrow> fst (ocrPdf w tr n) = emptyStage
          \<and> (\<exists>st. st \<noteq> Info \<and> snd (ocrPdf w tr n) = tr @ [\<lparr>step = ''ocr'', status = st\<rparr>]))
   \<and> (ps \<noteq> [] \<and> (\<not> canvas w \<or> \<not> tesseract w)
      \<longrightarrow> fst (ocrPdfPages w ps tr) = []
          \<and> (snd (ocrPdfPages w ps tr) = tr
              \<or> (\<exists>st. st \<noteq> Info
                    \<and> snd (ocrPdfPages w ps tr) = tr @ [\<lparr>step = ''ocr-adaptive'', status = st\<rparr>])))"
  by (auto simp: renderPdfWithPdfjs_def extractDocx_def serverExtractText_def ocrPdf_def
      ocrPdfPages_def pushTrace_def Let_def split: option.splits)

text \<open>The ways in which \<open>readFileContent\<close> fails: the three failures of buffer
  acquisition and preparation, the second read of an image file, and a remote answer whose
  text or pages are not strings.\<close>

lemma readFileContent_failures:
  "readFileContent w = Inl e
   \<Longrightarrow> (e = CorruptContent \<and> acquired w = AcquireThrows)
     \<or> (e = ContentUnavailable \<and> acquired w = AcquireNull)
     \<or> (e = SourceDamaged \<and> base64Throws w)
     \<or> (e = DataUrlReadError \<and> \<not> dataUrlReadable w)
     \<or> (e = TypeError \<and> (\<exists>p. server w = Payload p))"
proof -
  assume h: "readFileContent w = Inl e"
  have sv: "serverFallback w k tr = Inl e \<Longrightarrow> e = TypeError \<and> (\<exists>p. server w = Payload p)" for k tr
    by (auto simp: serverFallback_def serverExtractText_def Let_def
        split: prod.splits option.splits jsfield.splits if_splits serverOutcome.splits)
  have pd: "pdfPath w k tr = Inl e \<Longrightarrow> e = TypeError \<and> (\<exists>p. server w = Payload p)" for k tr
    using sv by (auto simp: pdfPath_def Let_def split: prod.splits if_splits)
  have im: "imagePath w tr = Inl e \<Longrightarrow> e = DataUrlReadError \<and> \<not> dataUrlReadable w" for tr
    by (auto simp: imagePath_def Let_def split: if_splits option.splits)
  show ?thesis
    using h pd im
    by (auto simp: readFileContent_def Let_def
        split: option.splits acquired.splits if_splits prod.splits)
qed

text \<open>
  Claim C8 says that \<open>readFileContent\<close> throws only while it acquires and prepares the
  buffer. Two runs in which the buffer is acquired and prepared and the call still throws:
  an image whose read as a data URL fails (the \<^verbatim>\<open>await readAsDataURL(file)\<close> of the image
  branch is outside the \<^verbatim>\<open>try\<close> that guards recognition), and a PDF without text for which
  the remote service answers with a \<^verbatim>\<open>text\<close> that is not a string (\<^verbatim>\<open>text.trim\<close> is not a
  function).
\<close>

theorem readFileContent_escapes:
  "acquired imageReadFailureWorld = Acquired [0x89, 0x50, 0x4E, 0x47]
   \<and> \<not> base64Throws imageReadFailureWorld
   \<and> readFileContent imageReadFailureWorld = Inl DataUrlReadError
   \<and> acquired malformedServerWorld = Acquired [0x25, 0x50, 0x44, 0x46]
   \<and> \<not> base64Throws malformedServerWorld
   \<and> readFileContent malformedServerWorld = Inl TypeError"
proof -
  have i: "inputFile imageReadFailureWorld = Some imageFile"
    "acquired imageReadFailureWorld = Acquired [0x89, 0x50, 0x4E, 0x47]"
    "\<not> base64Throws imageReadFailureWorld" "\<not> dataUrlReadable imageReadFailureWorld"
    by (simp_all add: imageReadFailureWorld_def)
  have a: "readFileContent imageReadFailureWorld = Inl DataUrlReadError"
    by (simp add: readFileContent_def i imageFile_kind imagePath_def)
  have m: "inputFile malformedServerWorld = Some pdfFile"
    "acquired malformedServerWorld = Acquired [0x25, 0x50, 0x44, 0x46]"
    "\<not> base64Throws malformedServerWorld"
    "server malformedServerWorld = Payload \<lparr>ptext = OtherValue, pmetaPages = None, pextractor = []\<rparr>"
    by (simp_all add: malformedServerWorld_def scannedPdfWorld_def)
  have b: "readFileContent malformedServerWorld = Inl TypeError"
    by (simp add: readFileContent_def m pdfFile_kind pdfPath_def malformed_structural
        serverFallback_def serverExtractText_def)
  show ?thesis using i m a b by simp
qed

end
